theory Spec2Isabelle
  imports Complex_Main
begin

section \<open>Strings, exceptions and the outside world\<close>

text \<open>
  A Python \<^verbatim>\<open>str\<close> is a sequence of Unicode code points; a code point is an
  integer here, so that a string is an \<open>int list\<close>. \<open>of_ascii\<close> turns an
  ASCII literal into such a string.
\<close>

type_synonym cp = int
type_synonym ustr = "cp list"

definition of_ascii :: "string \<Rightarrow> ustr" where
  "of_ascii s = map (\<lambda>c. of_char c) s"

text \<open>\<^verbatim>\<open>str(n)\<close> of an integer: its decimal digits, with a minus sign when negative.\<close>

function dec :: "int \<Rightarrow> ustr" where
  "dec i = (if i < 10 then [48 + i] else dec (i div 10) @ [48 + i mod 10])"
  by pat_completeness auto
termination
  by (relation "measure nat") auto

definition str_of_int :: "int \<Rightarrow> ustr" where
  "str_of_int i = (if i < 0 then 45 # dec (- i) else dec i)"

text \<open>The exceptions that the modelled code can meet, as values.\<close>

datatype exn =
    HTTPError int
  | RequestException
  | RuntimeError
  | JSONDecodeError
  | ValueError
  | TypeError
  | AttributeError
  | KeyError
  | IndexError
  | OverflowError

text \<open>
  The JSON values that \<^verbatim>\<open>json.loads\<close> produces. An object is an association list
  in insertion order, as a Python dict is; a float keeps its lexeme, because this
  development does no floating-point arithmetic.
\<close>

datatype json =
    JNull
  | JBool bool
  | JInt int
  | JFloat ustr
  | JStr ustr
  | JArr "json list"
  | JObj "(ustr \<times> json) list"

text \<open>
  The network and the clock. An HTTP request is answered by the server with a response
  or with a transport failure (the exception that \<^verbatim>\<open>requests\<close> raises), after some
  milliseconds. The server is any function of the request and of the number of requests
  made before it. Time is the wall clock in seconds, as an exact rational; it advances
  only while a request is served and during \<^verbatim>\<open>time.sleep\<close>. Console output is not
  modelled.
\<close>

record response =
  status_code :: int
  resp_text :: ustr

datatype reply = Respond response | Fail exn

datatype request =
    GET ustr
  | POST ustr ustr int json

record answer =
  reply :: reply
  millis :: nat

datatype event = Sent request | Slept rat

record world =
  server :: "nat \<Rightarrow> request \<Rightarrow> answer"
  nreq :: nat
  now :: rat
  trace :: "(rat \<times> event) list"
  dice :: "nat \<Rightarrow> ustr"
  ndraw :: nat

definition http :: "request \<Rightarrow> world \<Rightarrow> reply \<times> world" where
  "http rq w =
     (let a = server w (nreq w) rq in
      (reply a,
       w\<lparr>nreq := Suc (nreq w),
         trace := trace w @ [(now w, Sent rq)],
         now := now w + of_nat (millis a) / 1000\<rparr>))"

text \<open>\<^verbatim>\<open>time.sleep(d)\<close> raises \<^verbatim>\<open>ValueError\<close> on a negative duration.\<close>

definition sleep :: "rat \<Rightarrow> world \<Rightarrow> (exn + unit) \<times> world" where
  "sleep d w =
     (if d < 0 then (Inl ValueError, w)
      else (Inr (), w\<lparr>trace := trace w @ [(now w, Slept d)], now := now w + d\<rparr>))"

text \<open>The requests and the sleeps of a trace, in the order they happened.\<close>

fun requests_of :: "(rat \<times> event) list \<Rightarrow> request list" where
  "requests_of [] = []"
| "requests_of ((t, Sent rq) # es) = rq # requests_of es"
| "requests_of ((t, Slept d) # es) = requests_of es"

fun sleeps_of :: "(rat \<times> event) list \<Rightarrow> rat list" where
  "sleeps_of [] = []"
| "sleeps_of ((t, Sent rq) # es) = sleeps_of es"
| "sleeps_of ((t, Slept d) # es) = d # sleeps_of es"

section \<open>Transport: \<^verbatim>\<open>MoodleClient.get\<close>\<close>

text \<open>
  \<^verbatim>\<open>Response.raise_for_status\<close> of the \<^verbatim>\<open>requests\<close> library raises
  \<^verbatim>\<open>HTTPError\<close> for a status from 400 to 599 and returns otherwise.
\<close>

definition raise_for_status :: "response \<Rightarrow> exn + unit" where
  "raise_for_status r =
     (if 400 \<le> status_code r \<and> status_code r < 600 then Inl (HTTPError (status_code r))
      else Inr ())"

definition retryable :: "int \<Rightarrow> bool" where
  "retryable s = (s \<in> set [429, 500, 502, 503, 504])"

text \<open>
  The body of the \<^verbatim>\<open>try\<close> of one attempt: \<open>Inr (Some resp)\<close> is
  \<^verbatim>\<open>return resp\<close>, \<open>Inr None\<close> is \<^verbatim>\<open>continue\<close>, \<open>Inl e\<close> is an exception
  raised inside the \<^verbatim>\<open>try\<close>.
\<close>

definition get_try :: "ustr \<Rightarrow> rat \<Rightarrow> int \<Rightarrow> world \<Rightarrow> (exn + response option) \<times> world" where
  "get_try url backoff attempt w =
     (case http (GET url) w of
        (Fail e, w1) \<Rightarrow> (Inl e, w1)
      | (Respond resp, w1) \<Rightarrow>
          if status_code resp = 200 then (Inr (Some resp), w1)
          else if retryable (status_code resp) then
            (case sleep (backoff * of_int attempt) w1 of
               (Inl e, w2) \<Rightarrow> (Inl e, w2)
             | (Inr u, w2) \<Rightarrow> (Inr None, w2))
          else
            (case raise_for_status resp of
               Inl e \<Rightarrow> (Inl e, w1)
             | Inr u \<Rightarrow> (Inr (Some resp), w1)))"

text \<open>
  The loop over \<^verbatim>\<open>range(1, max_retries + 1)\<close>. The handler
  \<^verbatim>\<open>except Exception as e\<close> records the exception and sleeps; an exception raised by
  that sleep leaves \<^verbatim>\<open>get\<close>. After the loop the recorded exception is raised, or
  \<^verbatim>\<open>RuntimeError\<close> when there is none.
\<close>

fun get_loop :: "ustr \<Rightarrow> rat \<Rightarrow> int list \<Rightarrow> exn option \<Rightarrow> world \<Rightarrow> (exn + response) \<times> world" where
  "get_loop url backoff [] last_exc w =
     (case last_exc of Some e \<Rightarrow> (Inl e, w) | None \<Rightarrow> (Inl RuntimeError, w))"
| "get_loop url backoff (attempt # rest) last_exc w =
     (case get_try url backoff attempt w of
        (Inr (Some resp), w1) \<Rightarrow> (Inr resp, w1)
      | (Inr None, w1) \<Rightarrow> get_loop url backoff rest last_exc w1
      | (Inl e, w1) \<Rightarrow>
          (case sleep (backoff * of_int attempt) w1 of
             (Inl e', w2) \<Rightarrow> (Inl e', w2)
           | (Inr u, w2) \<Rightarrow> get_loop url backoff rest (Some e) w2))"

text \<open>\<^verbatim>\<open>s.startswith(p)\<close>.\<close>

fun starts_with :: "ustr \<Rightarrow> ustr \<Rightarrow> bool" where
  "starts_with s [] = True"
| "starts_with [] (p # ps) = False"
| "starts_with (x # xs) (p # ps) = (x = p \<and> starts_with xs ps)"

definition url_of :: "ustr \<Rightarrow> ustr \<Rightarrow> ustr" where
  "url_of base_url path = (if starts_with path (of_ascii ''http'') then path else base_url @ path)"

definition get_retrying :: "ustr \<Rightarrow> ustr \<Rightarrow> int \<Rightarrow> rat \<Rightarrow> world \<Rightarrow> (exn + response) \<times> world" where
  "get_retrying base_url path max_retries backoff w =
     get_loop (url_of base_url path) backoff [1..max_retries] None w"

text \<open>Every call of \<^verbatim>\<open>get\<close> in the repository leaves the defaults: three attempts, 0.8 s.\<close>

definition get :: "ustr \<Rightarrow> ustr \<Rightarrow> world \<Rightarrow> (exn + response) \<times> world" where
  "get base_url path w = get_retrying base_url path 3 (4 / 5) w"

text \<open>A world at rest whose server answers every request with the same status.\<close>

definition always :: "int \<Rightarrow> world" where
  "always s =
     \<lparr>server = (\<lambda>n rq. \<lparr>reply = Respond \<lparr>status_code = s, resp_text = []\<rparr>, millis = 0\<rparr>),
      nreq = 0, now = 0, trace = [], dice = (\<lambda>n. []), ndraw = 0\<rparr>"

section \<open>Python strings and regular expressions\<close>

text \<open>
  The character tables of the interpreter (Unicode 14.0, as CPython 3.11 ships it).
  \<open>is_space\<close> is \<^verbatim>\<open>str.isspace\<close> of one character, which is also what \<^verbatim>\<open>\s\<close>
  matches in a \<^verbatim>\<open>str\<close> pattern. The decimal digits (category Nd, what \<^verbatim>\<open>\d\<close>
  matches and \<^verbatim>\<open>int\<close> reads) come in runs of ten that start at the code points of
  \<open>decimal_bases\<close>; \<^verbatim>\<open>str.isdigit\<close> accepts them and the further digits of
  \<open>other_digit_ranges\<close> (superscripts, circled digits and the like).
\<close>

definition is_space :: "cp \<Rightarrow> bool" where
  "is_space c =
     ((9 \<le> c \<and> c \<le> 13) \<or> (28 \<le> c \<and> c \<le> 32) \<or> c = 133 \<or> c = 160 \<or> c = 5760
      \<or> (8192 \<le> c \<and> c \<le> 8202) \<or> c = 8232 \<or> c = 8233 \<or> c = 8239 \<or> c = 8287
      \<or> c = 12288)"

definition decimal_bases :: "cp list" where
  "decimal_bases =
     [0x30, 0x660, 0x6F0, 0x7C0, 0x966, 0x9E6, 0xA66, 0xAE6, 0xB66, 0xBE6, 0xC66, 0xCE6,
      0xD66, 0xDE6, 0xE50, 0xED0, 0xF20, 0x1040, 0x1090, 0x17E0, 0x1810, 0x1946, 0x19D0,
      0x1A80, 0x1A90, 0x1B50, 0x1BB0, 0x1C40, 0x1C50, 0xA620, 0xA8D0, 0xA900, 0xA9D0,
      0xA9F0, 0xAA50, 0xABF0, 0xFF10, 0x104A0, 0x10D30, 0x11066, 0x110F0, 0x11136,
      0x111D0, 0x112F0, 0x11450, 0x114D0, 0x11650, 0x116C0, 0x11730, 0x118E0, 0x11950,
      0x11C50, 0x11D50, 0x11DA0, 0x16A60, 0x16AC0, 0x16B50, 0x1D7CE, 0x1D7D8, 0x1D7E2,
      0x1D7EC, 0x1D7F6, 0x1E140, 0x1E2F0, 0x1E950, 0x1FBF0]"

fun decimal_in :: "cp list \<Rightarrow> cp \<Rightarrow> int option" where
  "decimal_in [] c = None"
| "decimal_in (b # bs) c = (if b \<le> c \<and> c < b + 10 then Some (c - b) else decimal_in bs c)"

definition decimal_value :: "cp \<Rightarrow> int option" where
  "decimal_value c = decimal_in decimal_bases c"

definition is_decimal :: "cp \<Rightarrow> bool" where
  "is_decimal c = (decimal_value c \<noteq> None)"

definition other_digit_ranges :: "(cp \<times> cp) list" where
  "other_digit_ranges =
     [(0xB2, 0xB3), (0xB9, 0xB9), (0x1369, 0x1371), (0x19DA, 0x19DA), (0x2070, 0x2070),
      (0x2074, 0x2079), (0x2080, 0x2089), (0x2460, 0x2468), (0x2474, 0x247C),
      (0x2488, 0x2490), (0x24EA, 0x24EA), (0x24F5, 0x24FD), (0x24FF, 0x24FF),
      (0x2776, 0x277E), (0x2780, 0x2788), (0x278A, 0x2792), (0x10A40, 0x10A43),
      (0x10E60, 0x10E68), (0x11052, 0x1105A), (0x1F100, 0x1F10A)]"

definition is_digit :: "cp \<Rightarrow> bool" where
  "is_digit c = (is_decimal c \<or> list_ex (\<lambda>(lo, hi). lo \<le> c \<and> c \<le> hi) other_digit_ranges)"

text \<open>\<^verbatim>\<open>s.isdigit()\<close>: every character is a digit and there is at least one.\<close>

definition isdigit :: "ustr \<Rightarrow> bool" where
  "isdigit s = (s \<noteq> [] \<and> list_all is_digit s)"

text \<open>\<^verbatim>\<open>s.strip()\<close> removes the white space at both ends.\<close>

definition strip :: "ustr \<Rightarrow> ustr" where
  "strip s = rev (dropWhile is_space (rev (dropWhile is_space s)))"

text \<open>What is left of \<open>s\<close> after its prefix \<open>p\<close>, if \<open>p\<close> is one.\<close>

fun after_prefix :: "ustr \<Rightarrow> ustr \<Rightarrow> ustr option" where
  "after_prefix [] s = Some s"
| "after_prefix (p # ps) [] = None"
| "after_prefix (p # ps) (x # xs) = (if p = x then after_prefix ps xs else None)"

text \<open>
  \<^verbatim>\<open>s.replace(old, new)\<close> for a non-empty \<open>old\<close>: every occurrence, found from the
  left and not overlapping an earlier one, is replaced.
\<close>

function replace :: "ustr \<Rightarrow> ustr \<Rightarrow> ustr \<Rightarrow> ustr" where
  "replace old new [] = []"
| "replace old new (x # xs) =
     (case after_prefix old (x # xs) of
        None \<Rightarrow> x # replace old new xs
      | Some rest \<Rightarrow>
          if old = [] then x # replace old new xs else new @ replace old new rest)"
  by pat_completeness auto
termination
proof (relation "measure (\<lambda>(old, new, s). length s)")
  have shorter: "length r + length p = length s" if "after_prefix p s = Some r" for p s r
    using that by (induction p s rule: after_prefix.induct) (auto split: if_splits)
  fix old new :: ustr and x :: cp and xs rest :: ustr
  assume "after_prefix old (x # xs) = Some rest" and "old \<noteq> []"
  then show "((old, new, rest), (old, new, x # xs)) \<in> measure (\<lambda>(old, new, s). length s)"
    using shorter [of old "x # xs" rest] by (cases old) auto
qed auto

text \<open>
  \<^verbatim>\<open>int(s)\<close> of a string: white space around it is dropped, a sign may lead, and the
  digits are decimal digits of any script, single underscores allowed between them.
  More than 4300 digits are refused (the interpreter's default limit on the conversion).
\<close>

fun digits_from :: "ustr \<Rightarrow> bool \<Rightarrow> int list option" where
  "digits_from [] after_digit = (if after_digit then Some [] else None)"
| "digits_from (c # cs) after_digit =
     (if c = 95 then (if after_digit then digits_from cs False else None)
      else (case decimal_value c of
              None \<Rightarrow> None
            | Some d \<Rightarrow> (case digits_from cs True of None \<Rightarrow> None | Some ds \<Rightarrow> Some (d # ds))))"

definition horner :: "int list \<Rightarrow> int" where
  "horner ds = foldl (\<lambda>acc d. 10 * acc + d) 0 ds"

definition int_max_str_digits :: nat where
  "int_max_str_digits = 4300"

definition int_of_str :: "ustr \<Rightarrow> exn + int" where
  "int_of_str s =
     (let t = strip s;
          neg = (t \<noteq> [] \<and> hd t = 45);
          body = (if t \<noteq> [] \<and> (hd t = 45 \<or> hd t = 43) then tl t else t)
      in case digits_from body False of
           None \<Rightarrow> Inl ValueError
         | Some ds \<Rightarrow>
             if int_max_str_digits < length ds then Inl ValueError
             else Inr (if neg then - horner ds else horner ds))"

subsection \<open>Regular expressions\<close>

text \<open>
  The patterns of the repository are sequences of single characters and character
  classes, each taken once, optionally (\<^verbatim>\<open>?\<close>), greedily repeated (\<^verbatim>\<open>*\<close>, and \<^verbatim>\<open>+\<close>
  as once followed by \<^verbatim>\<open>*\<close>) or lazily repeated (\<^verbatim>\<open>*?\<close>), with one capturing group.
  A pattern is the list of these items; \<open>Open\<close> and \<open>Close\<close> are the parentheses of the
  group. Every \<^verbatim>\<open>.\<close> of the source is compiled with \<^verbatim>\<open>re.DOTALL\<close>, so \<open>Any\<close>
  matches every character.
\<close>

datatype cset = Ch cp | Range cp cp | Space | Digit

datatype cclass = Any | OneOf "cset list" | NoneOf "cset list"

datatype item = One cclass | Maybe cclass | Many cclass | Lazy cclass | Open | Close

type_synonym regex = "item list"

fun in_cset :: "cset \<Rightarrow> cp \<Rightarrow> bool" where
  "in_cset (Ch a) c = (c = a)"
| "in_cset (Range lo hi) c = (lo \<le> c \<and> c \<le> hi)"
| "in_cset Space c = is_space c"
| "in_cset Digit c = is_decimal c"

fun cmatch :: "cclass \<Rightarrow> cp \<Rightarrow> bool" where
  "cmatch Any c = True"
| "cmatch (OneOf cs) c = list_ex (\<lambda>k. in_cset k c) cs"
| "cmatch (NoneOf cs) c = (\<not> list_ex (\<lambda>k. in_cset k c) cs)"

text \<open>
  The backtracking matcher, anchored at the start of \<open>s\<close>: the first way of matching
  the items in the order the \<^verbatim>\<open>re\<close> engine tries them (a greedy item takes a
  character first and gives it back on failure, a lazy one tries the rest first). The
  result is the input left after the match and the text of the group. \<open>opened\<close> is the
  input at the opening parenthesis.
\<close>

fun rmatch :: "regex \<Rightarrow> ustr \<Rightarrow> ustr option \<Rightarrow> ustr option \<Rightarrow> (ustr \<times> ustr option) option" where
  "rmatch [] s opened grp = Some (s, grp)"
| "rmatch (One c # k) [] opened grp = None"
| "rmatch (One c # k) (x # xs) opened grp =
     (if cmatch c x then rmatch k xs opened grp else None)"
| "rmatch (Maybe c # k) [] opened grp = rmatch k [] opened grp"
| "rmatch (Maybe c # k) (x # xs) opened grp =
     (if cmatch c x
      then (case rmatch k xs opened grp of
              Some r \<Rightarrow> Some r
            | None \<Rightarrow> rmatch k (x # xs) opened grp)
      else rmatch k (x # xs) opened grp)"
| "rmatch (Many c # k) [] opened grp = rmatch k [] opened grp"
| "rmatch (Many c # k) (x # xs) opened grp =
     (if cmatch c x
      then (case rmatch (Many c # k) xs opened grp of
              Some r \<Rightarrow> Some r
            | None \<Rightarrow> rmatch k (x # xs) opened grp)
      else rmatch k (x # xs) opened grp)"
| "rmatch (Lazy c # k) [] opened grp = rmatch k [] opened grp"
| "rmatch (Lazy c # k) (x # xs) opened grp =
     (case rmatch k (x # xs) opened grp of
        Some r \<Rightarrow> Some r
      | None \<Rightarrow> if cmatch c x then rmatch (Lazy c # k) xs opened grp else None)"
| "rmatch (Open # k) s opened grp = rmatch k s (Some s) grp"
| "rmatch (Close # k) s opened grp =
     (case opened of
        None \<Rightarrow> rmatch k s opened grp
      | Some s0 \<Rightarrow> rmatch k s opened (Some (take (length s0 - length s) s0)))"

text \<open>
  \<^verbatim>\<open>re.search\<close>: the match at the leftmost position that has one. The result is
  \<^verbatim>\<open>m.group(1)\<close>; \<open>None\<close> is no match. (In every pattern of the source the group
  takes part in every match.)
\<close>

definition group1 :: "ustr \<times> ustr option \<Rightarrow> ustr" where
  "group1 m = (case snd m of Some g \<Rightarrow> g | None \<Rightarrow> [])"

fun search :: "regex \<Rightarrow> ustr \<Rightarrow> ustr option" where
  "search p [] = map_option group1 (rmatch p [] None None)"
| "search p (x # xs) =
     (case rmatch p (x # xs) None None of
        Some m \<Rightarrow> Some (group1 m)
      | None \<Rightarrow> search p xs)"

text \<open>
  \<^verbatim>\<open>re.sub(p, repl, s)\<close> for a pattern that matches no empty string (the two patterns
  given to it in the source match at least one character): every match, found from
  the left, is replaced by \<open>repl\<close> applied to the text of the group.
\<close>

function resub :: "regex \<Rightarrow> (ustr option \<Rightarrow> ustr) \<Rightarrow> ustr \<Rightarrow> ustr" where
  "resub p repl [] = []"
| "resub p repl (x # xs) =
     (case rmatch p (x # xs) None None of
        None \<Rightarrow> x # resub p repl xs
      | Some (rest, g) \<Rightarrow>
          if length rest \<le> length xs then repl g @ resub p repl rest
          else x # resub p repl xs)"
  by pat_completeness auto
termination
  by (relation "measure (\<lambda>(p, repl, s). length s)") auto

text \<open>Pieces of patterns: a literal text, and the classes the source uses.\<close>

definition lit :: "string \<Rightarrow> regex" where
  "lit s = map (\<lambda>c. One (OneOf [Ch (of_char c)])) s"

definition ws :: cclass where
  "ws = OneOf [Space]"

definition digit :: cclass where
  "digit = OneOf [Digit]"

definition quote :: cclass where
  "quote = OneOf [Ch 34, Ch 39]"

definition alnum :: cclass where
  "alnum = OneOf [Range 97 122, Range 65 90, Range 48 57]"

definition colon_or_eq :: cclass where
  "colon_or_eq = OneOf [Ch 58, Ch 61]"

section \<open>\<^verbatim>\<open>json.loads\<close>\<close>

text \<open>
  The decoder of the standard library, on a \<^verbatim>\<open>str\<close>: first the tokens, then the
  values. Between tokens only space, tab, line feed and carriage return are skipped. A
  string token ends at the next unescaped double quote; a raw control character in it
  is an error; the escapes are the nine of JSON, and a \<^verbatim>\<open>\u\<close> escape for a high
  surrogate joins the low surrogate escaped right after it. A number is the longest run
  of digits, signs, dots and exponent letters, which must read
  \<^verbatim>\<open>-?(0|[1-9][0-9]*)(\.[0-9]+)?([eE][-+]?[0-9]+)?\<close>: an integer without fraction
  and exponent (at most 4300 digits), a float otherwise. The decoder also accepts
  \<^verbatim>\<open>NaN\<close>, \<^verbatim>\<open>Infinity\<close> and \<^verbatim>\<open>-Infinity\<close> as floats. Every failure is an
  exception, here \<open>JSONDecodeError\<close>; the limit that the interpreter's recursion depth
  puts on nesting is not modelled.
\<close>

datatype tok = TLBrace | TRBrace | TLBrack | TRBrack | TColon | TComma | TVal json

definition hex_value :: "cp \<Rightarrow> int option" where
  "hex_value c =
     (if 48 \<le> c \<and> c \<le> 57 then Some (c - 48)
      else if 97 \<le> c \<and> c \<le> 102 then Some (c - 87)
      else if 65 \<le> c \<and> c \<le> 70 then Some (c - 55)
      else None)"

definition hex4 :: "cp \<Rightarrow> cp \<Rightarrow> cp \<Rightarrow> cp \<Rightarrow> int option" where
  "hex4 a b c d =
     (case (hex_value a, hex_value b, hex_value c, hex_value d) of
        (Some h3, Some h2, Some h1, Some h0) \<Rightarrow> Some (4096 * h3 + 256 * h2 + 16 * h1 + h0)
      | _ \<Rightarrow> None)"

definition simple_escape :: "cp \<Rightarrow> cp option" where
  "simple_escape c =
     (if c = 34 \<or> c = 92 \<or> c = 47 then Some c
      else if c = 98 then Some 8
      else if c = 102 then Some 12
      else if c = 110 then Some 10
      else if c = 114 then Some 13
      else if c = 116 then Some 9
      else None)"

text \<open>
  The low surrogate escaped at the head of \<open>s\<close>, for a high surrogate \<open>hi\<close>: the joined
  code point and the number of characters taken.
\<close>

definition joined :: "int \<Rightarrow> ustr \<Rightarrow> (cp \<times> nat)" where
  "joined hi s =
     (case s of
        b # u # a # b' # c # d # rest \<Rightarrow>
          (if 55296 \<le> hi \<and> hi \<le> 56319 \<and> b = 92 \<and> u = 117 then
             (case hex4 a b' c d of
                Some lo \<Rightarrow>
                  if 56320 \<le> lo \<and> lo \<le> 57343
                  then (65536 + 1024 * (hi - 55296) + (lo - 56320), 6)
                  else (hi, 0)
              | None \<Rightarrow> (hi, 0))
           else (hi, 0))
      | _ \<Rightarrow> (hi, 0))"

definition numberish :: "cp \<Rightarrow> bool" where
  "numberish c = ((48 \<le> c \<and> c \<le> 57) \<or> c = 43 \<or> c = 45 \<or> c = 46 \<or> c = 101 \<or> c = 69)"

definition ascii_digit :: "cp \<Rightarrow> bool" where
  "ascii_digit c = (48 \<le> c \<and> c \<le> 57)"

text \<open>The lexeme of a number, read by the grammar above.\<close>

definition number_of :: "ustr \<Rightarrow> json option" where
  "number_of lexeme =
     (let unsigned = (if lexeme \<noteq> [] \<and> hd lexeme = 45 then tl lexeme else lexeme);
          int_part = takeWhile ascii_digit unsigned;
          after_int = dropWhile ascii_digit unsigned;
          frac = (if after_int \<noteq> [] \<and> hd after_int = 46
                  then takeWhile ascii_digit (tl after_int) else []);
          after_frac = (if after_int \<noteq> [] \<and> hd after_int = 46
                  then dropWhile ascii_digit (tl after_int) else after_int);
          has_frac = (after_int \<noteq> [] \<and> hd after_int = 46);
          has_exp = (after_frac \<noteq> [] \<and> (hd after_frac = 101 \<or> hd after_frac = 69));
          exp_body = (if has_exp then tl after_frac else []);
          exp_digits = (if exp_body \<noteq> [] \<and> (hd exp_body = 43 \<or> hd exp_body = 45)
                  then tl exp_body else exp_body)
      in if int_part = [] \<or> (hd int_part = 48 \<and> length int_part \<noteq> 1) then None
         else if has_frac \<and> frac = [] then None
         else if \<not> has_exp \<and> after_frac \<noteq> [] then None
         else if has_exp \<and> (exp_digits = [] \<or> \<not> list_all ascii_digit exp_digits) then None
         else if has_frac \<or> has_exp then Some (JFloat lexeme)
         else if int_max_str_digits < length int_part then None
         else Some (JInt ((if hd lexeme = 45 then - 1 else 1) * horner (map (\<lambda>c. c - 48) int_part))))"

function (sequential) tokenize :: "ustr \<Rightarrow> tok list option"
  and in_string :: "ustr \<Rightarrow> ustr \<Rightarrow> tok list option" where
  "tokenize [] = Some []"
| "tokenize (c # cs) =
     (if c = 32 \<or> c = 9 \<or> c = 10 \<or> c = 13 then tokenize cs
      else if c = 123 then map_option ((#) TLBrace) (tokenize cs)
      else if c = 125 then map_option ((#) TRBrace) (tokenize cs)
      else if c = 91 then map_option ((#) TLBrack) (tokenize cs)
      else if c = 93 then map_option ((#) TRBrack) (tokenize cs)
      else if c = 58 then map_option ((#) TColon) (tokenize cs)
      else if c = 44 then map_option ((#) TComma) (tokenize cs)
      else if c = 34 then in_string [] cs
      else if starts_with (c # cs) (of_ascii ''null'')
        then map_option ((#) (TVal JNull)) (tokenize (drop 3 cs))
      else if starts_with (c # cs) (of_ascii ''true'')
        then map_option ((#) (TVal (JBool True))) (tokenize (drop 3 cs))
      else if starts_with (c # cs) (of_ascii ''false'')
        then map_option ((#) (TVal (JBool False))) (tokenize (drop 4 cs))
      else if starts_with (c # cs) (of_ascii ''NaN'')
        then map_option ((#) (TVal (JFloat (of_ascii ''NaN'')))) (tokenize (drop 2 cs))
      else if starts_with (c # cs) (of_ascii ''Infinity'')
        then map_option ((#) (TVal (JFloat (of_ascii ''Infinity'')))) (tokenize (drop 7 cs))
      else if starts_with (c # cs) (of_ascii ''-Infinity'')
        then map_option ((#) (TVal (JFloat (of_ascii ''-Infinity'')))) (tokenize (drop 8 cs))
      else if numberish c then
        (case number_of (c # takeWhile numberish cs) of
           None \<Rightarrow> None
         | Some v \<Rightarrow> map_option ((#) (TVal v)) (tokenize (dropWhile numberish cs)))
      else None)"
| "in_string acc [] = None"
| "in_string acc (c # cs) =
     (if c = 34 then map_option ((#) (TVal (JStr (rev acc)))) (tokenize cs)
      else if c = 92 then
        (case cs of
           [] \<Rightarrow> None
         | e # r \<Rightarrow>
             if e = 117 then
               (case r of
                  a # b # c' # d # r' \<Rightarrow>
                    (case hex4 a b c' d of
                       None \<Rightarrow> None
                     | Some u \<Rightarrow>
                         in_string (fst (joined u r') # acc) (drop (snd (joined u r')) r'))
                | _ \<Rightarrow> None)
             else (case simple_escape e of
                     None \<Rightarrow> None
                   | Some x \<Rightarrow> in_string (x # acc) r))
      else if c \<le> 31 then None
      else in_string (c # acc) cs)"
  by pat_completeness auto
termination
  by (relation "measure (\<lambda>x. case x of Inl s \<Rightarrow> length s | Inr (acc, s) \<Rightarrow> length s)")
     (auto simp add: le_imp_less_Suc length_dropWhile_le)

text \<open>
  The values of a token list. \<open>FArr\<close> is an array under construction with its elements
  so far (newest first), \<open>FObj\<close> an object with its entries so far and the key that
  waits for its value. A key met again replaces the earlier value in place, as a dict
  assignment does.
\<close>

fun dict_set :: "ustr \<Rightarrow> json \<Rightarrow> (ustr \<times> json) list \<Rightarrow> (ustr \<times> json) list" where
  "dict_set k v [] = [(k, v)]"
| "dict_set k v ((k', v') # d) = (if k' = k then (k, v) # d else (k', v') # dict_set k v d)"

datatype frame = FArr "json list" | FObj "(ustr \<times> json) list" ustr

fun pvalue :: "frame list \<Rightarrow> tok list \<Rightarrow> json option"
  and pafter :: "json \<Rightarrow> frame list \<Rightarrow> tok list \<Rightarrow> json option" where
  "pvalue st [] = None"
| "pvalue st (t # ts) =
     (case t of
        TVal v \<Rightarrow> pafter v st ts
      | TLBrack \<Rightarrow>
          (case ts of
             TRBrack # ts' \<Rightarrow> pafter (JArr []) st ts'
           | _ \<Rightarrow> pvalue (FArr [] # st) ts)
      | TLBrace \<Rightarrow>
          (case ts of
             TRBrace # ts' \<Rightarrow> pafter (JObj []) st ts'
           | TVal (JStr k) # TColon # ts' \<Rightarrow> pvalue (FObj [] k # st) ts'
           | _ \<Rightarrow> None)
      | _ \<Rightarrow> None)"
| "pafter v [] ts = (if ts = [] then Some v else None)"
| "pafter v (f # st) [] = None"
| "pafter v (f # st) (t # ts) =
     (case f of
        FArr xs \<Rightarrow>
          (case t of
             TComma \<Rightarrow> pvalue (FArr (v # xs) # st) ts
           | TRBrack \<Rightarrow> pafter (JArr (rev (v # xs))) st ts
           | _ \<Rightarrow> None)
      | FObj d k \<Rightarrow>
          (case t of
             TComma \<Rightarrow>
               (case ts of
                  TVal (JStr k') # TColon # ts' \<Rightarrow> pvalue (FObj (dict_set k v d) k' # st) ts'
                | _ \<Rightarrow> None)
           | TRBrace \<Rightarrow> pafter (JObj (dict_set k v d)) st ts
           | _ \<Rightarrow> None))"

definition json_loads :: "ustr \<Rightarrow> exn + json" where
  "json_loads s =
     (case tokenize s of
        None \<Rightarrow> Inl JSONDecodeError
      | Some ts \<Rightarrow> (case pvalue [] ts of None \<Rightarrow> Inl JSONDecodeError | Some v \<Rightarrow> Inr v))"

section \<open>Context Extractor: the static methods of \<^verbatim>\<open>MoodleClient\<close>\<close>

definition chr1 :: "cp \<Rightarrow> item" where
  "chr1 c = One (OneOf [Ch c])"

definition number_group :: regex where
  "number_group = [Open, One digit, Many digit, Close]"

definition object_group :: regex where
  "object_group = [Open, chr1 123, Lazy Any, chr1 125, Close]"

text \<open>\<^verbatim>\<open>Optional[str]\<close> and the like as a value: \<open>None\<close> is \<open>JNull\<close>.\<close>

definition str_or_none :: "ustr option \<Rightarrow> json" where
  "str_or_none m = (case m of None \<Rightarrow> JNull | Some s \<Rightarrow> JStr s)"

subsection \<open>\<^verbatim>\<open>extract_sesskey\<close>\<close>

text \<open>
  \<^verbatim>\<open>name=["\']sesskey["\']\s+value=["\']([a-zA-Z0-9]+)["\']\<close> and
  \<^verbatim>\<open>sesskey["\']?\s*[:=]\s*["\']([a-zA-Z0-9]+)["\']\<close>.
\<close>

definition pat_sesskey_input :: regex where
  "pat_sesskey_input =
     lit ''name='' @ [One quote] @ lit ''sesskey'' @ [One quote, One ws, Many ws]
     @ lit ''value='' @ [One quote, Open, One alnum, Many alnum, Close, One quote]"

definition pat_sesskey_js :: regex where
  "pat_sesskey_js =
     lit ''sesskey'' @ [Maybe quote, Many ws, One colon_or_eq, Many ws,
                        One quote, Open, One alnum, Many alnum, Close, One quote]"

definition extract_sesskey :: "ustr \<Rightarrow> ustr option" where
  "extract_sesskey html =
     (case search pat_sesskey_input html of
        Some g \<Rightarrow> Some g
      | None \<Rightarrow>
          (case search pat_sesskey_js html of
             Some g \<Rightarrow> Some g
           | None \<Rightarrow> None))"

subsection \<open>\<^verbatim>\<open>parse_m_cfg\<close>\<close>

text \<open>
  \<^verbatim>\<open>M\.cfg\s*=\s*(\{.*?\})\s*;\<close> and \<^verbatim>\<open>cfg\s*:\s*(\{.*?\})\<close>; the trailing commas
  are removed by \<^verbatim>\<open>re.sub(r",\s*([}\]])", r"\1", cleaned)\<close>.
\<close>

definition pat_mcfg_assign :: regex where
  "pat_mcfg_assign = lit ''M.cfg'' @ [Many ws, chr1 61, Many ws] @ object_group @ [Many ws, chr1 59]"

definition pat_cfg_field :: regex where
  "pat_cfg_field = lit ''cfg'' @ [Many ws, chr1 58, Many ws] @ object_group"

definition pat_trailing_comma :: regex where
  "pat_trailing_comma = [chr1 44, Many ws, Open, One (OneOf [Ch 125, Ch 93]), Close]"

definition backref1 :: "ustr option \<Rightarrow> ustr" where
  "backref1 g = (case g of Some t \<Rightarrow> t | None \<Rightarrow> [])"

definition drop_trailing_commas :: "ustr \<Rightarrow> ustr" where
  "drop_trailing_commas s = resub pat_trailing_comma backref1 s"

definition single_to_double :: "ustr \<Rightarrow> ustr" where
  "single_to_double s = replace [39] [34] s"

text \<open>
  The result is \<open>Inr\<close> of what the method returns; \<open>Inl\<close> would be an exception
  leaving the method. Both \<^verbatim>\<open>json.loads\<close> stand in a \<^verbatim>\<open>try\<close>.
\<close>

definition parse_m_cfg :: "ustr \<Rightarrow> exn + json" where
  "parse_m_cfg html =
     (case (case search pat_mcfg_assign html of
              Some g \<Rightarrow> Some g
            | None \<Rightarrow> search pat_cfg_field html) of
        None \<Rightarrow> Inr (JObj [])
      | Some raw \<Rightarrow>
          (case json_loads (drop_trailing_commas raw) of
             Inr v \<Rightarrow> Inr v
           | Inl e \<Rightarrow>
               (case json_loads (drop_trailing_commas (single_to_double raw)) of
                  Inr v \<Rightarrow> Inr v
                | Inl e' \<Rightarrow> Inr (JObj []))))"

subsection \<open>\<^verbatim>\<open>extract_fsresource_info\<close>\<close>

text \<open>The dict \<open>info\<close> has the same four keys throughout.\<close>

record fsinfo =
  info_fsresourceid :: json
  info_duration :: json
  info_name :: json
  info_sesskey :: json

text \<open>
  \<^verbatim>\<open>d.get(k)\<close>: the value, or \<^verbatim>\<open>None\<close> for a missing key; a value that is not a
  dict has no such method.
\<close>

definition dict_get :: "json \<Rightarrow> ustr \<Rightarrow> exn + json" where
  "dict_get d k =
     (case d of
        JObj kvs \<Rightarrow> Inr (case map_of kvs k of Some v \<Rightarrow> v | None \<Rightarrow> JNull)
      | _ \<Rightarrow> Inl AttributeError)"

text \<open>
  \<^verbatim>\<open>playerdata\s*=\s*(\{.*?\})\s*;\<close> and \<^verbatim>\<open>playerdata\s*:\s*(\{.*?\})\<close>.
\<close>

definition pat_playerdata_assign :: regex where
  "pat_playerdata_assign =
     lit ''playerdata'' @ [Many ws, chr1 61, Many ws] @ object_group @ [Many ws, chr1 59]"

definition pat_playerdata_field :: regex where
  "pat_playerdata_field = lit ''playerdata'' @ [Many ws, chr1 58, Many ws] @ object_group"

text \<open>
  The body of the \<^verbatim>\<open>try\<close> that reads the playerdata object: the updated \<open>info\<close>,
  or the exception that ends the body. \<^verbatim>\<open>isinstance(fsid, int)\<close> holds for an
  integer and for a boolean.
\<close>

definition from_playerdata :: "ustr \<Rightarrow> fsinfo \<Rightarrow> exn + fsinfo" where
  "from_playerdata raw info =
     (case json_loads (single_to_double (drop_trailing_commas raw)) of
        Inl e \<Rightarrow> Inl e
      | Inr pdata \<Rightarrow>
          (case dict_get pdata (of_ascii ''fsresourceid'') of
             Inl e \<Rightarrow> Inl e
           | Inr fsid \<Rightarrow>
               (case (case fsid of
                        JInt n \<Rightarrow> Inr (info\<lparr>info_fsresourceid := fsid\<rparr>)
                      | JBool b \<Rightarrow> Inr (info\<lparr>info_fsresourceid := fsid\<rparr>)
                      | JStr s \<Rightarrow>
                          if isdigit s
                          then (case int_of_str s of
                                  Inl e \<Rightarrow> Inl e
                                | Inr n \<Rightarrow> Inr (info\<lparr>info_fsresourceid := JInt n\<rparr>))
                          else Inr info
                      | _ \<Rightarrow> Inr info) of
                  Inl e \<Rightarrow> Inl e
                | Inr info1 \<Rightarrow>
                    (case dict_get pdata (of_ascii ''sesskey'') of
                       Inl e \<Rightarrow> Inl e
                     | Inr sk \<Rightarrow>
                         (case sk of
                            JStr s \<Rightarrow> Inr (if s \<noteq> [] then info1\<lparr>info_sesskey := sk\<rparr> else info1)
                          | _ \<Rightarrow> Inr info1)))))"

text \<open>
  The generic patterns, in the order of the source:
  \<^verbatim>\<open>fsresourceid\s*[:=]\s*(\d+)\<close>, \<^verbatim>\<open>data-fsresourceid\s*=\s*\"?(\d+)\"?\<close>,
  \<^verbatim>\<open>fsresource\s*:\s*\{[^}]*?id\s*:\s*(\d+)\<close>, \<^verbatim>\<open>cmid\s*[:=]\s*(\d+)\<close>;
  for the duration \<^verbatim>\<open>duration\s*[:=]\s*(\d+)\<close> and
  \<^verbatim>\<open>data-duration\s*=\s*\"?(\d+)\"?\<close>; for the name \<^verbatim>\<open><h2[^>]*>(.*?)</h2>\<close>.
\<close>

definition patterns :: "regex list" where
  "patterns =
     [lit ''fsresourceid'' @ [Many ws, One colon_or_eq, Many ws] @ number_group,
      lit ''data-fsresourceid'' @ [Many ws, chr1 61, Many ws, Maybe (OneOf [Ch 34])]
        @ number_group @ [Maybe (OneOf [Ch 34])],
      lit ''fsresource'' @ [Many ws, chr1 58, Many ws, chr1 123, Lazy (NoneOf [Ch 125])]
        @ lit ''id'' @ [Many ws, chr1 58, Many ws] @ number_group,
      lit ''cmid'' @ [Many ws, One colon_or_eq, Many ws] @ number_group]"

definition dur_patterns :: "regex list" where
  "dur_patterns =
     [lit ''duration'' @ [Many ws, One colon_or_eq, Many ws] @ number_group,
      lit ''data-duration'' @ [Many ws, chr1 61, Many ws, Maybe (OneOf [Ch 34])]
        @ number_group @ [Maybe (OneOf [Ch 34])]]"

definition pat_h2 :: regex where
  "pat_h2 = lit ''<h2'' @ [Many (NoneOf [Ch 62]), chr1 62, Open, Lazy Any, Close] @ lit ''</h2>''"

text \<open>
  The loop \<^verbatim>\<open>for pat in pats\<close>: the first pattern that matches and whose group
  \<^verbatim>\<open>int\<close> converts ends the loop; a failed conversion is passed over.
\<close>

fun first_int :: "regex list \<Rightarrow> ustr \<Rightarrow> int option" where
  "first_int [] html = None"
| "first_int (pat # pats) html =
     (case search pat html of
        None \<Rightarrow> first_int pats html
      | Some g \<Rightarrow>
          (case int_of_str g of
             Inr n \<Rightarrow> Some n
           | Inl e \<Rightarrow> first_int pats html))"

definition collapse_spaces :: "ustr \<Rightarrow> ustr" where
  "collapse_spaces s = resub [One ws, Many ws] (\<lambda>g. [32]) s"

definition extract_fsresource_info :: "ustr \<Rightarrow> exn + fsinfo" where
  "extract_fsresource_info html =
     (let info0 = \<lparr>info_fsresourceid = JNull, info_duration = JNull, info_name = JNull, info_sesskey = JNull\<rparr>;
          m = (case search pat_playerdata_assign html of
                 Some g \<Rightarrow> Some g
               | None \<Rightarrow> search pat_playerdata_field html);
          info1 = (case m of
                     None \<Rightarrow> info0
                   | Some raw \<Rightarrow>
                       (case from_playerdata raw info0 of
                          Inr i \<Rightarrow> i
                        | Inl e \<Rightarrow> info0));
          info2 = (case first_int patterns html of
                     Some n \<Rightarrow> info1\<lparr>info_fsresourceid := JInt n\<rparr>
                   | None \<Rightarrow> info1);
          info3 = (case first_int dur_patterns html of
                     Some n \<Rightarrow> info2\<lparr>info_duration := JInt n\<rparr>
                   | None \<Rightarrow> info2);
          info4 = (case search pat_h2 html of
                     Some g \<Rightarrow> info3\<lparr>info_name := JStr (strip (collapse_spaces g))\<rparr>
                   | None \<Rightarrow> info3)
      in Inr info4)"

section \<open>Python values at run time\<close>

text \<open>
  What the interpreter and the libraries do outside this development: floating-point
  arithmetic and formatting, the \<^verbatim>\<open>repr\<close> of compound values, and the HTML parser
  behind \<^verbatim>\<open>parse_course_fsresources\<close>. They are parameters.
  \<^item> \<open>float_truthy x\<close>, \<open>float_to_int x\<close>: \<^verbatim>\<open>bool(f)\<close> and \<^verbatim>\<open>int(f)\<close> of the
    float that the JSON lexeme \<open>x\<close> denotes;
  \<^item> \<open>repr_value v\<close>: \<^verbatim>\<open>str(v)\<close> of a float, a list or a dict;
  \<^item> \<open>progress_2f elapsed target\<close>: the text
    \<^verbatim>\<open>f"{max(0.0, min(1.0, elapsed / float(target))):.2f}"\<close>;
  \<^item> \<open>progress_done elapsed target\<close>: whether that fraction is \<^verbatim>\<open>>= 0.999\<close>;
  \<^item> \<open>parse_course_fsresources html\<close>: the video items of a course page.
\<close>

record video_item =
  item_id :: int
  incomplete :: "bool option"

record runtime =
  float_truthy :: "ustr \<Rightarrow> bool"
  float_to_int :: "ustr \<Rightarrow> exn + int"
  repr_value :: "json \<Rightarrow> ustr"
  progress_2f :: "int \<Rightarrow> int \<Rightarrow> ustr"
  progress_done :: "int \<Rightarrow> int \<Rightarrow> bool"
  parse_course_fsresources :: "ustr \<Rightarrow> video_item list"

fun truthy :: "runtime \<Rightarrow> json \<Rightarrow> bool" where
  "truthy rt JNull = False"
| "truthy rt (JBool b) = b"
| "truthy rt (JInt n) = (n \<noteq> 0)"
| "truthy rt (JFloat x) = float_truthy rt x"
| "truthy rt (JStr s) = (s \<noteq> [])"
| "truthy rt (JArr xs) = (xs \<noteq> [])"
| "truthy rt (JObj kvs) = (kvs \<noteq> [])"

text \<open>\<^verbatim>\<open>a or b\<close>.\<close>

definition py_or :: "runtime \<Rightarrow> json \<Rightarrow> json \<Rightarrow> json" where
  "py_or rt a b = (if truthy rt a then a else b)"

fun py_str :: "runtime \<Rightarrow> json \<Rightarrow> ustr" where
  "py_str rt JNull = of_ascii ''None''"
| "py_str rt (JBool b) = (if b then of_ascii ''True'' else of_ascii ''False'')"
| "py_str rt (JInt n) = str_of_int n"
| "py_str rt (JStr s) = s"
| "py_str rt (JFloat x) = repr_value rt (JFloat x)"
| "py_str rt (JArr xs) = repr_value rt (JArr xs)"
| "py_str rt (JObj kvs) = repr_value rt (JObj kvs)"

fun py_int :: "runtime \<Rightarrow> json \<Rightarrow> exn + int" where
  "py_int rt (JInt n) = Inr n"
| "py_int rt (JBool b) = Inr (if b then 1 else 0)"
| "py_int rt (JStr s) = int_of_str s"
| "py_int rt (JFloat x) = float_to_int rt x"
| "py_int rt JNull = Inl TypeError"
| "py_int rt (JArr xs) = Inl TypeError"
| "py_int rt (JObj kvs) = Inl TypeError"

text \<open>\<^verbatim>\<open>int(x)\<close> of a float (the clock): truncation towards zero.\<close>

definition trunc :: "rat \<Rightarrow> int" where
  "trunc r = (if r < 0 then - \<lfloor>- r\<rfloor> else \<lfloor>r\<rfloor>)"

text \<open>
  \<^verbatim>\<open>float(n)\<close> raises \<^verbatim>\<open>OverflowError\<close> when \<open>n\<close> rounds beyond the largest
  double.
\<close>

definition float_overflows :: "int \<Rightarrow> bool" where
  "float_overflows n = (2 ^ 1024 - 2 ^ 970 \<le> \<bar>n\<bar>)"

section \<open>RPC Gateway: \<^verbatim>\<open>post_service\<close> and \<^verbatim>\<open>get_course_module_info\<close>\<close>

definition get_my_courses_page :: "ustr \<Rightarrow> world \<Rightarrow> (exn + ustr) \<times> world" where
  "get_my_courses_page base_url w =
     (case get base_url (of_ascii ''/my/'') w of
        (Inl e, w1) \<Rightarrow> (Inl e, w1)
      | (Inr resp, w1) \<Rightarrow> (Inr (resp_text resp), w1))"

text \<open>
  The security token of a service call: from the given page, else from a fetch of
  \<^verbatim>\<open>/my/\<close> whose failure is passed over.
\<close>

definition service_sesskey :: "ustr \<Rightarrow> ustr \<Rightarrow> world \<Rightarrow> ustr option \<times> world" where
  "service_sesskey base_url html_context w =
     (case (if html_context \<noteq> [] then extract_sesskey html_context else None) of
        Some s \<Rightarrow> (Some s, w)
      | None \<Rightarrow>
          (case get_my_courses_page base_url w of
             (Inl e, w1) \<Rightarrow> (None, w1)
           | (Inr page, w1) \<Rightarrow> (extract_sesskey page, w1)))"

definition service_url :: "ustr \<Rightarrow> ustr" where
  "service_url base_url = base_url @ of_ascii ''/lib/ajax/service.php''"

text \<open>
  \<^verbatim>\<open>post_service\<close>: the request carries the token (or the empty string), the
  timestamp and the payload; the result is the decoded body.
\<close>

definition post_service ::
  "ustr \<Rightarrow> json \<Rightarrow> ustr \<Rightarrow> int option \<Rightarrow> world \<Rightarrow> (exn + json) \<times> world" where
  "post_service base_url payload_list html_context timestamp w =
     (case service_sesskey base_url html_context w of
        (sk, w1) \<Rightarrow>
          (let ts = (case timestamp of Some t \<Rightarrow> t | None \<Rightarrow> trunc (now w1 * 1000));
               key = (case sk of Some s \<Rightarrow> s | None \<Rightarrow> [])
           in case http (POST (service_url base_url) key ts payload_list) w1 of
                (Fail e, w2) \<Rightarrow> (Inl e, w2)
              | (Respond resp, w2) \<Rightarrow>
                  (case raise_for_status resp of
                     Inl e \<Rightarrow> (Inl e, w2)
                   | Inr u \<Rightarrow>
                       (case json_loads (resp_text resp) of
                          Inl e \<Rightarrow> (Inl e, w2)
                        | Inr v \<Rightarrow> (Inr v, w2)))))"

text \<open>What \<^verbatim>\<open>get_course_module_info\<close> makes of the decoded reply.\<close>

definition module_info_of :: "runtime \<Rightarrow> json \<Rightarrow> json" where
  "module_info_of rt data =
     (case data of
        JArr (entry # rest) \<Rightarrow>
          (case dict_get entry (of_ascii ''error'') of
             Inl e \<Rightarrow> JObj []
           | Inr err \<Rightarrow>
               if truthy rt err then JObj []
               else (case dict_get entry (of_ascii ''data'') of
                       Inl e \<Rightarrow> JObj []
                     | Inr d \<Rightarrow> py_or rt d (JObj [])))
      | _ \<Rightarrow> JObj [])"

definition module_info_payload :: "int \<Rightarrow> json" where
  "module_info_payload cmid =
     JArr [JObj [(of_ascii ''index'', JInt 0),
                 (of_ascii ''methodname'', JStr (of_ascii ''core_course_get_course_module'')),
                 (of_ascii ''args'', JObj [(of_ascii ''cmid'', JInt cmid)])]]"

definition get_course_module_info ::
  "runtime \<Rightarrow> ustr \<Rightarrow> int \<Rightarrow> ustr \<Rightarrow> world \<Rightarrow> (exn + json) \<times> world" where
  "get_course_module_info rt base_url cmid html_context w =
     (case post_service base_url (module_info_payload cmid) html_context None w of
        (Inl e, w1) \<Rightarrow> (Inl e, w1)
      | (Inr data, w1) \<Rightarrow> (Inr (module_info_of rt data), w1))"

section \<open>Progress Engine: \<^verbatim>\<open>WatchVideoJob.run\<close>\<close>

text \<open>
  The fields of the job that \<^verbatim>\<open>run\<close> reads; \<open>target_seconds\<close> is the one it assigns.
  The locals that the resolving part of \<^verbatim>\<open>run\<close> leaves for the loop are the record
  \<open>resolved\<close>.
\<close>

record settings =
  duration_seconds :: int
  interval_seconds :: int
  payload_template :: "ustr option"
  target_seconds :: "int option"

record resolved =
  html :: ustr
  sesskey :: json
  sessiontimeout :: "int option"
  course_id :: json
  context_instance_id :: json
  fsresourceid :: json
  start :: rat

text \<open>How a run returns.\<close>

datatype ending = Completed | TimedOut | TemplateError | ContextUnresolved

definition int_truthy :: "int option \<Rightarrow> bool" where
  "int_truthy n = (case n of None \<Rightarrow> False | Some k \<Rightarrow> k \<noteq> 0)"

definition video_page :: "int \<Rightarrow> ustr" where
  "video_page video_id = of_ascii ''/mod/fsresource/view.php?id='' @ str_of_int video_id"

text \<open>
  The resource id when the page did not give one and a context instance id is known:
  the \<open>instance\<close> of the module info, if it has a usable one.
\<close>

definition lookup_fsresourceid ::
  "runtime \<Rightarrow> ustr \<Rightarrow> ustr \<Rightarrow> json \<Rightarrow> json \<Rightarrow> world \<Rightarrow> (exn + json) \<times> world" where
  "lookup_fsresourceid rt base_url page context_id fsid w =
     (if \<not> truthy rt fsid \<and> truthy rt context_id then
        (case py_int rt context_id of
           Inl e \<Rightarrow> (Inl e, w)
         | Inr cmid \<Rightarrow>
             (case get_course_module_info rt base_url cmid page w of
                (Inl e, w1) \<Rightarrow> (Inl e, w1)
              | (Inr cm_info, w1) \<Rightarrow>
                  (case dict_get cm_info (of_ascii ''instance'') of
                     Inl e \<Rightarrow> (Inr fsid, w1)
                   | Inr inst \<Rightarrow> (Inr (py_or rt inst fsid), w1))))
      else (Inr fsid, w))"

text \<open>
  The part of \<^verbatim>\<open>run\<close> before the loop. \<open>Inr None\<close> is the early \<^verbatim>\<open>return\<close> for a
  missing security token; \<open>Inl e\<close> is an exception that leaves \<^verbatim>\<open>run\<close>.
\<close>

definition resolving ::
  "runtime \<Rightarrow> ustr \<Rightarrow> settings \<Rightarrow> int \<Rightarrow> world \<Rightarrow> (exn + (settings \<times> resolved) option) \<times> world" where
  "resolving rt base_url job video_id w =
     (case get base_url (video_page video_id) w of
        (Inl e, w1) \<Rightarrow> (Inl e, w1)
      | (Inr resp, w1) \<Rightarrow>
          (case parse_m_cfg (resp_text resp) of
             Inl e \<Rightarrow> (Inl e, w1)
           | Inr mcfg \<Rightarrow>
          (case dict_get mcfg (of_ascii ''sesskey'') of
             Inl e \<Rightarrow> (Inl e, w1)
           | Inr cfg_sesskey \<Rightarrow>
          (case dict_get mcfg (of_ascii ''sessiontimeout'') of
             Inl e \<Rightarrow> (Inl e, w1)
           | Inr cfg_timeout \<Rightarrow>
          (case (if truthy rt cfg_timeout then map_sum id Some (py_int rt cfg_timeout)
                 else Inr None) of
             Inl e \<Rightarrow> (Inl e, w1)
           | Inr timeout \<Rightarrow>
          (case dict_get mcfg (of_ascii ''courseId'') of
             Inl e \<Rightarrow> (Inl e, w1)
           | Inr cfg_course \<Rightarrow>
          (case dict_get mcfg (of_ascii ''contextInstanceId'') of
             Inl e \<Rightarrow> (Inl e, w1)
           | Inr cfg_context \<Rightarrow>
          (case extract_fsresource_info (resp_text resp) of
             Inl e \<Rightarrow> (Inl e, w1)
           | Inr fsinfo \<Rightarrow>
          (let key0 = py_or rt cfg_sesskey (str_or_none (extract_sesskey (resp_text resp)));
               key = (if \<not> truthy rt key0 \<and> truthy rt (info_sesskey fsinfo)
                      then info_sesskey fsinfo else key0);
               job1 = (case info_duration fsinfo of
                         JInt n \<Rightarrow>
                           if \<not> int_truthy (target_seconds job) \<and> n \<noteq> 0
                           then job\<lparr>target_seconds := Some n\<rparr> else job
                       | _ \<Rightarrow> job)
           in case lookup_fsresourceid rt base_url (resp_text resp) cfg_context
                     (info_fsresourceid fsinfo) w1 of
                (Inl e, w2) \<Rightarrow> (Inl e, w2)
              | (Inr fsid, w2) \<Rightarrow>
                  if \<not> truthy rt key then (Inr None, w2)
                  else (Inr (Some (job1,
                          \<lparr>html = resp_text resp, sesskey = key, sessiontimeout = timeout,
                           course_id = cfg_course, context_instance_id = cfg_context,
                           fsresourceid = (if \<not> truthy rt fsid then JInt video_id else fsid),
                           start = now w2\<rparr>)), w2))))))))))"

subsection \<open>One iteration\<close>

text \<open>The placeholders are replaced in the order of the source.\<close>

definition fill_template :: "runtime \<Rightarrow> ustr \<Rightarrow> int \<Rightarrow> resolved \<Rightarrow> int \<Rightarrow> int \<Rightarrow> ustr" where
  "fill_template rt template timestamp cx video_id time_value =
     replace (of_ascii ''{time}'') (str_of_int time_value)
      (replace (of_ascii ''{fsresourceid}'') (py_str rt (fsresourceid cx))
       (replace (of_ascii ''{videoId}'') (str_of_int video_id)
        (replace (of_ascii ''{contextInstanceId}'') (py_str rt (context_instance_id cx))
         (replace (of_ascii ''{courseId}'') (py_str rt (course_id cx))
          (replace (of_ascii ''{sesskey}'') (py_str rt (sesskey cx))
           (replace (of_ascii ''{timestamp}'') (str_of_int timestamp) template))))))"

text \<open>
  \<^verbatim>\<open>key in payload[0].get("args", {})\<close> and \<^verbatim>\<open>payload[0]["args"][key] = v\<close>, each
  with the exceptions of the interpreter: indexing a dict with 0 or an empty list,
  \<^verbatim>\<open>get\<close> on a value that is no dict, \<^verbatim>\<open>in\<close> on a value that is no container
  (on a list it looks for an element, on a string for a substring), item assignment
  with a string key on a list or a string.
\<close>

fun is_substring :: "ustr \<Rightarrow> ustr \<Rightarrow> bool" where
  "is_substring k [] = (k = [])"
| "is_substring k (x # xs) = (starts_with (x # xs) k \<or> is_substring k xs)"

definition item0 :: "json \<Rightarrow> exn + json" where
  "item0 payload =
     (case payload of
        JArr [] \<Rightarrow> Inl IndexError
      | JArr (x # xs) \<Rightarrow> Inr x
      | JStr [] \<Rightarrow> Inl IndexError
      | JStr (c # cs) \<Rightarrow> Inr (JStr [c])
      | JObj kvs \<Rightarrow> Inl KeyError
      | _ \<Rightarrow> Inl TypeError)"

definition args_of :: "json \<Rightarrow> exn + json" where
  "args_of entry =
     (case entry of
        JObj kvs \<Rightarrow> Inr (case map_of kvs (of_ascii ''args'') of Some a \<Rightarrow> a | None \<Rightarrow> JObj [])
      | _ \<Rightarrow> Inl AttributeError)"

definition contains :: "json \<Rightarrow> ustr \<Rightarrow> exn + bool" where
  "contains container key =
     (case container of
        JObj kvs \<Rightarrow> Inr (map_of kvs key \<noteq> None)
      | JArr xs \<Rightarrow> Inr (JStr key \<in> set xs)
      | JStr s \<Rightarrow> Inr (is_substring key s)
      | _ \<Rightarrow> Inl TypeError)"

definition declares :: "json \<Rightarrow> ustr \<Rightarrow> exn + bool" where
  "declares payload key =
     (case item0 payload of
        Inl e \<Rightarrow> Inl e
      | Inr entry \<Rightarrow> (case args_of entry of Inl e \<Rightarrow> Inl e | Inr a \<Rightarrow> contains a key))"

definition assign_arg :: "json \<Rightarrow> ustr \<Rightarrow> json \<Rightarrow> exn + json" where
  "assign_arg payload key v =
     (case payload of
        JArr (JObj kvs # rest) \<Rightarrow>
          (case map_of kvs (of_ascii ''args'') of
             None \<Rightarrow> Inl KeyError
           | Some (JObj a) \<Rightarrow>
               Inr (JArr (JObj (dict_set (of_ascii ''args'') (JObj (dict_set key v a)) kvs) # rest))
           | Some other \<Rightarrow> Inl TypeError)
      | _ \<Rightarrow> Inl TypeError)"

text \<open>
  \<^verbatim>\<open>try: if key in ...: ... = v\<close> with \<^verbatim>\<open>except Exception: pass\<close>: an exception
  leaves the payload as it was.
\<close>

definition overwrite :: "json \<Rightarrow> ustr \<Rightarrow> json \<Rightarrow> json" where
  "overwrite payload key v =
     (case declares payload key of
        Inl e \<Rightarrow> payload
      | Inr False \<Rightarrow> payload
      | Inr True \<Rightarrow> (case assign_arg payload key v of Inl e \<Rightarrow> payload | Inr p \<Rightarrow> p))"

text \<open>
  The fields that the engine fills in the parsed envelope. The division
  \<^verbatim>\<open>elapsed / float(self.target_seconds)\<close> is outside every \<^verbatim>\<open>try\<close>.
\<close>

definition fill_progress :: "runtime \<Rightarrow> settings \<Rightarrow> int \<Rightarrow> json \<Rightarrow> exn + json" where
  "fill_progress rt job elapsed payload =
     (case target_seconds job of
        None \<Rightarrow> Inr payload
      | Some target \<Rightarrow>
          if target = 0 then Inr payload
          else if float_overflows target then Inl OverflowError
          else Inr (overwrite
                 (overwrite payload (of_ascii ''progress'') (JStr (progress_2f rt elapsed target)))
                 (of_ascii ''finish'') (JInt (if progress_done rt elapsed target then 1 else 0))))"

definition fill_fields :: "runtime \<Rightarrow> settings \<Rightarrow> int \<Rightarrow> ustr \<Rightarrow> json \<Rightarrow> exn + json" where
  "fill_fields rt job elapsed uniq payload =
     (case fill_progress rt job elapsed payload of
        Inl e \<Rightarrow> Inl e
      | Inr p \<Rightarrow> Inr (overwrite p (of_ascii ''unique'') (JStr uniq)))"

text \<open>
  What the loop prints and inspects of a decoded reply: the \<open>data\<close> of the first entry
  of a list (the entry itself when it has none), else the reply.
\<close>

definition unwrap :: "json \<Rightarrow> json" where
  "unwrap resp_json =
     (case resp_json of
        JArr (entry # rest) \<Rightarrow>
          (case entry of
             JObj kvs \<Rightarrow> (case map_of kvs (of_ascii ''data'') of Some d \<Rightarrow> d | None \<Rightarrow> entry)
           | _ \<Rightarrow> resp_json)
      | _ \<Rightarrow> resp_json)"

text \<open>The completion text of the server, three CJK characters: U+5DF2 U+5B8C U+6210.\<close>

definition completed_text :: ustr where
  "completed_text = [0x5DF2, 0x5B8C, 0x6210]"

definition reports_completion :: "json \<Rightarrow> bool" where
  "reports_completion out =
     (case out of
        JObj kvs \<Rightarrow> map_of kvs (of_ascii ''completion'') = Some (JStr completed_text)
      | _ \<Rightarrow> False)"

definition sleep_s :: "int \<Rightarrow> int option \<Rightarrow> int" where
  "sleep_s interval timeout =
     (case timeout of
        None \<Rightarrow> interval
      | Some st \<Rightarrow> if st \<noteq> 0 \<and> st < interval then max 30 (st div 2) else interval)"

definition template_of :: "settings \<Rightarrow> ustr option" where
  "template_of job =
     (case payload_template job of None \<Rightarrow> None | Some [] \<Rightarrow> None | Some (c # cs) \<Rightarrow> Some (c # cs))"

text \<open>The sleep that ends an iteration; \<open>Inr None\<close> lets the loop go on.\<close>

definition pause :: "int \<Rightarrow> world \<Rightarrow> (exn + ending option) \<times> world" where
  "pause seconds w =
     (case sleep (of_int seconds) w of
        (Inl e, w1) \<Rightarrow> (Inl e, w1)
      | (Inr u, w1) \<Rightarrow> (Inr None, w1))"

text \<open>
  The body of the \<^verbatim>\<open>while\<close>: \<open>Inr None\<close> is the end of the body or \<^verbatim>\<open>continue\<close>,
  \<open>Inr (Some r)\<close> is \<^verbatim>\<open>break\<close>, \<open>Inl e\<close> an exception that leaves \<^verbatim>\<open>run\<close>.
\<close>

definition iteration ::
  "runtime \<Rightarrow> ustr \<Rightarrow> settings \<Rightarrow> int \<Rightarrow> resolved \<Rightarrow> world \<Rightarrow> (exn + ending option) \<times> world" where
  "iteration rt base_url job video_id cx w =
     (let timestamp = trunc (now w * 1000);
          elapsed = trunc (now w - start cx)
      in case template_of job of
           None \<Rightarrow> pause (interval_seconds job) w
         | Some template \<Rightarrow>
             (case json_loads (fill_template rt template timestamp cx video_id
                                 (min elapsed (duration_seconds job))) of
                Inl e \<Rightarrow> (Inr (Some TemplateError), w)
              | Inr parsed \<Rightarrow>
                  (case fill_fields rt job elapsed
                          (str_of_int timestamp @ of_ascii ''_'' @ dice w (ndraw w)) parsed of
                     Inl e \<Rightarrow> (Inl e, w)
                   | Inr payload \<Rightarrow>
                       (case post_service base_url payload (html cx) (Some timestamp)
                               (w\<lparr>ndraw := Suc (ndraw w)\<rparr>) of
                          (Inr resp_json, w1) \<Rightarrow>
                            if reports_completion (unwrap resp_json) then (Inr (Some Completed), w1)
                            else pause (sleep_s (interval_seconds job) (sessiontimeout cx)) w1
                        | (Inl e, w1) \<Rightarrow>
                            pause (sleep_s (interval_seconds job) (sessiontimeout cx)) w1))))"

subsection \<open>The loop and the run\<close>

text \<open>
  \<^verbatim>\<open>while time.time() < end\<close>. The loop need not end (an interval of zero against a
  server that answers at once never moves the clock), so it is unrolled at most \<open>n\<close>
  times: the result \<open>None\<close> is a run that is still looping after \<open>n\<close> iterations, and
  the world is the one it has reached by then.
\<close>

fun looping ::
  "nat \<Rightarrow> runtime \<Rightarrow> ustr \<Rightarrow> settings \<Rightarrow> int \<Rightarrow> resolved \<Rightarrow> world \<Rightarrow> (exn + ending) option \<times> world" where
  "looping 0 rt base_url job video_id cx w = (None, w)"
| "looping (Suc n) rt base_url job video_id cx w =
     (if now w < start cx + of_int (duration_seconds job) then
        (case iteration rt base_url job video_id cx w of
           (Inl e, w1) \<Rightarrow> (Some (Inl e), w1)
         | (Inr (Some r), w1) \<Rightarrow> (Some (Inr r), w1)
         | (Inr None, w1) \<Rightarrow> looping n rt base_url job video_id cx w1)
      else (Some (Inr TimedOut), w))"

definition run ::
  "nat \<Rightarrow> runtime \<Rightarrow> ustr \<Rightarrow> settings \<Rightarrow> int \<Rightarrow> world \<Rightarrow> (exn + ending) option \<times> world" where
  "run n rt base_url job video_id w =
     (case resolving rt base_url job video_id w of
        (Inl e, w1) \<Rightarrow> (Some (Inl e), w1)
      | (Inr None, w1) \<Rightarrow> (Some (Inr ContextUnresolved), w1)
      | (Inr (Some (job1, cx)), w1) \<Rightarrow> looping n rt base_url job1 video_id cx w1)"

section \<open>Batch: \<^verbatim>\<open>WatchCourseIncompleteJob.run\<close>\<close>





section \<open>Reading a trace\<close>

text \<open>
  The times at which the service calls of a trace were issued, and what it means for
  a list of times to be at least \<open>d\<close> seconds apart from one to the next.
\<close>

fun post_times :: "(rat \<times> event) list \<Rightarrow> rat list" where
  "post_times [] = []"
| "post_times ((t, Sent (POST url key ts payload)) # es) = t # post_times es"
| "post_times ((t, Sent (GET url)) # es) = post_times es"
| "post_times ((t, Slept d) # es) = post_times es"

fun spaced :: "rat \<Rightarrow> rat list \<Rightarrow> bool" where
  "spaced d [] = True"
| "spaced d [t] = True"
| "spaced d (t # t' # ts) = (t + d \<le> t' \<and> spaced d (t' # ts))"

section \<open>Reading an envelope\<close>

text \<open>
  The dict \<^verbatim>\<open>payload[0]["args"]\<close> of an envelope that has one, the envelope with
  another dict in its place, and the three fields that the engine fills.
\<close>

definition args_dict :: "json \<Rightarrow> (ustr \<times> json) list option" where
  "args_dict payload =
     (case payload of
        JArr (JObj kvs # rest) \<Rightarrow>
          (case map_of kvs (of_ascii ''args'') of Some (JObj a) \<Rightarrow> Some a | _ \<Rightarrow> None)
      | _ \<Rightarrow> None)"

definition with_args :: "json \<Rightarrow> (ustr \<times> json) list \<Rightarrow> json" where
  "with_args payload a =
     (case payload of
        JArr (JObj kvs # rest) \<Rightarrow> JArr (JObj (dict_set (of_ascii ''args'') (JObj a) kvs) # rest)
      | _ \<Rightarrow> payload)"

definition engine_fields :: "ustr list" where
  "engine_fields = [of_ascii ''progress'', of_ascii ''finish'', of_ascii ''unique'']"

section \<open>Worlds and pages for the examples\<close>

text \<open>
  A runtime for the examples. They contain no float, format the progress only at
  elapsed time 0 of a positive target, and discover the same two videos on every
  course page.
\<close>

definition example_runtime :: runtime where
  "example_runtime =
     \<lparr>float_truthy = (\<lambda>x. True),
      float_to_int = (\<lambda>x. Inl ValueError),
      repr_value = (\<lambda>v. []),
      progress_2f = (\<lambda>elapsed target. of_ascii ''0.00''),
      progress_done = (\<lambda>elapsed target. False),
      parse_course_fsresources =
        (\<lambda>page. [\<lparr>item_id = 11, incomplete = Some True\<rparr>, \<lparr>item_id = 12, incomplete = Some True\<rparr>])\<rparr>"

text \<open>A world at time 0 in which nothing has happened yet.\<close>

definition world_of :: "(nat \<Rightarrow> request \<Rightarrow> answer) \<Rightarrow> world" where
  "world_of srv =
     \<lparr>server = srv, nreq = 0, now = 0, trace = [], dice = (\<lambda>n. of_ascii ''0.5''), ndraw = 0\<rparr>"

definition ok :: "ustr \<Rightarrow> answer" where
  "ok body = \<lparr>reply = Respond \<lparr>status_code = 200, resp_text = body\<rparr>, millis = 0\<rparr>"

text \<open>A server that answers every GET with one page and every POST with one body.\<close>

definition serving :: "ustr \<Rightarrow> ustr \<Rightarrow> nat \<Rightarrow> request \<Rightarrow> answer" where
  "serving page body n rq = (case rq of GET url \<Rightarrow> ok page | POST url key ts payload \<Rightarrow> ok body)"


definition base :: ustr where
  "base = of_ascii ''https://courses.gdut.edu.cn''"

text \<open>The page of the scenario of the specification.\<close>

definition playerdata_page :: ustr where
  \<open>playerdata_page = of_ascii ''playerdata = {fsresourceid: 4821, duration: 600, sesskey: 'abc123'}''\<close>

text \<open>A page whose playerdata object is valid JSON, followed by a link with a \<^verbatim>\<open>cmid\<close>.\<close>

definition structured_page :: ustr where
  \<open>structured_page = of_ascii ''var playerdata = {"fsresourceid": 4821}; <a href="/mod/x/view.php?cmid=7">''\<close>

text \<open>A page with an \<^verbatim>\<open>M.cfg\<close> that gives the token and a session timeout of 61 s.\<close>

definition timeout_page :: ustr where
  \<open>timeout_page = of_ascii ''M.cfg = {"sesskey":"abc123","sessiontimeout":"61"};''\<close>

text \<open>The reply of the scenario of the specification, and a reply without a completion.\<close>

definition completion_body :: ustr where
  \<open>completion_body =
     of_ascii ''[{"data": {"status": "ok", "completion": "'' @ completed_text @ of_ascii ''"}}]''\<close>

definition progress_body :: ustr where
  \<open>progress_body = of_ascii ''[{"data": {"status": "ok"}}]''\<close>

text \<open>Templates: one that declares the three fields, one that declares only \<open>finish\<close>.\<close>

definition full_template :: ustr where
  \<open>full_template =
     of_ascii ''[{"index":0,"methodname":"mod_fsresource_set_time","args":{"fsresourceid":{fsresourceid},"time":{time},"progress":"0","finish":0,"unique":""}}]''\<close>

definition finish_template :: ustr where
  \<open>finish_template =
     of_ascii ''[{"index":0,"methodname":"mod_fsresource_set_time","args":{"time":{time},"finish":5}}]''\<close>



text \<open>
  A job with the full template, and the locals that the resolving part of its run
  leaves on the page with the timeout.
\<close>

definition example_job :: settings where
  "example_job =
     \<lparr>duration_seconds = 300, interval_seconds = 100,
      payload_template = Some full_template, target_seconds = Some 600\<rparr>"

definition timeout_context :: resolved where
  "timeout_context =
     \<lparr>html = timeout_page, sesskey = JStr (of_ascii ''abc123''), sessiontimeout = Some 61,
      course_id = JNull, context_instance_id = JNull, fsresourceid = JInt 159716, start = 0\<rparr>"

text \<open>
  The envelope that the full template parses to in that context at time 0, the same
  after the engine has filled its fields, and the decoded reply of the scenario.
\<close>

definition envelope :: "(ustr \<times> json) list \<Rightarrow> json" where
  "envelope args =
     JArr [JObj [(of_ascii ''index'', JInt 0),
                 (of_ascii ''methodname'', JStr (of_ascii ''mod_fsresource_set_time'')),
                 (of_ascii ''args'', JObj args)]]"

definition example_parsed :: json where
  "example_parsed =
     envelope [(of_ascii ''fsresourceid'', JInt 159716), (of_ascii ''time'', JInt 0),
               (of_ascii ''progress'', JStr (of_ascii ''0'')), (of_ascii ''finish'', JInt 0),
               (of_ascii ''unique'', JStr [])]"

definition example_payload :: json where
  "example_payload =
     envelope [(of_ascii ''fsresourceid'', JInt 159716), (of_ascii ''time'', JInt 0),
               (of_ascii ''progress'', JStr (of_ascii ''0.00'')), (of_ascii ''finish'', JInt 0),
               (of_ascii ''unique'', JStr (of_ascii ''0_0.5''))]"

definition completion_reply :: json where
  "completion_reply =
     JArr [JObj [(of_ascii ''data'',
                  JObj [(of_ascii ''status'', JStr (of_ascii ''ok'')),
                        (of_ascii ''completion'', JStr completed_text)])]]"

text \<open>What the template with only \<open>finish\<close> parses to at time 0, and the same filled.\<close>

definition finish_parsed :: json where
  "finish_parsed = envelope [(of_ascii ''time'', JInt 0), (of_ascii ''finish'', JInt 5)]"

definition finish_payload :: json where
  "finish_payload = envelope [(of_ascii ''time'', JInt 0), (of_ascii ''finish'', JInt 0)]"



section \<open>Properties of the transport\<close>

lemma http_simps:
  "fst (http rq w) = reply (server w (nreq w) rq)"
  "server (snd (http rq w)) = server w"
  "nreq (snd (http rq w)) = Suc (nreq w)"
  "trace (snd (http rq w)) = trace w @ [(now w, Sent rq)]"
  "now (snd (http rq w)) = now w + of_nat (millis (server w (nreq w) rq)) / 1000"
  by (simp_all add: http_def Let_def)

lemma requests_of_append: "requests_of (xs @ ys) = requests_of xs @ requests_of ys"
  by (induction xs rule: requests_of.induct) simp_all

lemma sleeps_of_append: "sleeps_of (xs @ ys) = sleeps_of xs @ sleeps_of ys"
  by (induction xs rule: sleeps_of.induct) simp_all

lemma get_try_200:
  assumes "reply (server w (nreq w) (GET url)) = Respond r" "status_code r = 200"
  shows "get_try url backoff attempt w = (Inr (Some r), snd (http (GET url) w))"
  using assms by (simp add: get_try_def http_def Let_def)

lemma get_try_retryable:
  assumes "reply (server w (nreq w) (GET url)) = Respond r" "retryable (status_code r)" "0 \<le> backoff * of_int attempt"
  shows "get_try url backoff attempt w =
     (Inr None, snd (sleep (backoff * of_int attempt) (snd (http (GET url) w))))"
  using assms by (auto simp add: get_try_def http_def Let_def retryable_def sleep_def)

lemma get_loop_retryable:
  assumes "0 \<le> backoff" "\<forall>a \<in> set as. 0 \<le> a"
    and "\<forall>k < length as. \<exists>r. reply (server w (nreq w + k) (GET url)) = Respond r \<and> retryable (status_code r)"
  shows "fst (get_loop url backoff as last_exc w) = Inl (case last_exc of Some e \<Rightarrow> e | None \<Rightarrow> RuntimeError)
     \<and> requests_of (trace (snd (get_loop url backoff as last_exc w))) = requests_of (trace w) @ replicate (length as) (GET url)
     \<and> sleeps_of (trace (snd (get_loop url backoff as last_exc w))) = sleeps_of (trace w) @ map (\<lambda>a. backoff * of_int a) as"
  using assms
proof (induction as arbitrary: w)
  case Nil
  then show ?case by (simp split: option.splits)
next
  case (Cons a as)
  from Cons.prems(3) obtain r where r: "reply (server w (nreq w) (GET url)) = Respond r" "retryable (status_code r)"
    by fastforce
  have nn: "0 \<le> backoff * of_int a" using Cons.prems by simp
  define w1 where "w1 = snd (sleep (backoff * of_int a) (snd (http (GET url) w)))"
  have t: "get_try url backoff a w = (Inr None, w1)"
    unfolding w1_def by (rule get_try_retryable[OF r nn])
  have w1: "server w1 = server w" "nreq w1 = Suc (nreq w)"
    "trace w1 = trace w @ [(now w, Sent (GET url))] @ [(now (snd (http (GET url) w)), Slept (backoff * of_int a))]"
    using nn by (simp_all add: w1_def sleep_def http_simps)
  have "\<forall>k<length as. \<exists>r. reply (server w1 (nreq w1 + k) (GET url)) = Respond r \<and> retryable (status_code r)"
  proof (intro allI impI)
    fix k assume "k < length as"
    then have "Suc k < length (a # as)" by simp
    with Cons.prems(3) show "\<exists>r. reply (server w1 (nreq w1 + k) (GET url)) = Respond r \<and> retryable (status_code r)"
      unfolding w1 by (metis add_Suc_shift)
  qed
  with Cons.IH[of w1] Cons.prems have IH:
    "fst (get_loop url backoff as last_exc w1) = Inl (case last_exc of Some e \<Rightarrow> e | None \<Rightarrow> RuntimeError)
     \<and> requests_of (trace (snd (get_loop url backoff as last_exc w1))) = requests_of (trace w1) @ replicate (length as) (GET url)
     \<and> sleeps_of (trace (snd (get_loop url backoff as last_exc w1))) = sleeps_of (trace w1) @ map (\<lambda>a. backoff * of_int a) as"
    by simp
  have "get_loop url backoff (a # as) last_exc w = get_loop url backoff as last_exc w1"
    by (simp add: t)
  with IH show ?case
    by (simp add: w1 requests_of_append sleeps_of_append replicate_app_Cons_same)
qed



text \<open>
  Claim C1. When every one of the \<open>max_retries\<close> attempts of a GET receives a retryable
  status (429, 500, 502, 503 or 504), \<^verbatim>\<open>get\<close> issues exactly \<open>max_retries\<close> requests,
  sleeps \<open>backoff * attempt\<close> seconds after attempt number \<open>attempt\<close> (also after the last
  one), and then fails: no exception was recorded, so the failure is the generic
  \<^verbatim>\<open>RuntimeError\<close> raised after the loop. And at whichever attempt the loop stands,
  whatever failed before, a response with status 200 is returned at once: that one request
  is the last, and no sleep follows it.
\<close>

theorem get_retries_exhausted_or_returns_200:
  "(0 \<le> backoff \<and>
    (\<forall>k < nat max_retries.
        \<exists>r. reply (server w (nreq w + k) (GET (url_of base_url path))) = Respond r \<and>
            retryable (status_code r))
    \<longrightarrow> fst (get_retrying base_url path max_retries backoff w) = Inl RuntimeError
      \<and> requests_of (trace (snd (get_retrying base_url path max_retries backoff w)))
          = requests_of (trace w) @ replicate (nat max_retries) (GET (url_of base_url path))
      \<and> sleeps_of (trace (snd (get_retrying base_url path max_retries backoff w)))
          = sleeps_of (trace w) @ map (\<lambda>attempt. backoff * of_int attempt) [1..max_retries])
   \<and>
   (reply (server v (nreq v) (GET url)) = Respond r200 \<and> status_code r200 = 200
    \<longrightarrow> fst (get_loop url b (attempt # rest) last_exc v) = Inr r200
      \<and> requests_of (trace (snd (get_loop url b (attempt # rest) last_exc v)))
          = requests_of (trace v) @ [GET url]
      \<and> sleeps_of (trace (snd (get_loop url b (attempt # rest) last_exc v))) = sleeps_of (trace v))"
proof (intro conjI impI)
  assume a: "0 \<le> backoff \<and>
    (\<forall>k < nat max_retries.
        \<exists>r. reply (server w (nreq w + k) (GET (url_of base_url path))) = Respond r \<and>
            retryable (status_code r))"
  have len: "length [1..max_retries] = nat max_retries"
    by (simp add: length_upto)
  have "fst (get_loop (url_of base_url path) backoff [1..max_retries] None w) = Inl (case None of Some e \<Rightarrow> e | None \<Rightarrow> RuntimeError)
     \<and> requests_of (trace (snd (get_loop (url_of base_url path) backoff [1..max_retries] None w))) = requests_of (trace w) @ replicate (length [1..max_retries]) (GET (url_of base_url path))
     \<and> sleeps_of (trace (snd (get_loop (url_of base_url path) backoff [1..max_retries] None w))) = sleeps_of (trace w) @ map (\<lambda>a. backoff * of_int a) [1..max_retries]"
    by (rule get_loop_retryable) (use a len in simp_all)
  then show "fst (get_retrying base_url path max_retries backoff w) = Inl RuntimeError"
    and "requests_of (trace (snd (get_retrying base_url path max_retries backoff w)))
          = requests_of (trace w) @ replicate (nat max_retries) (GET (url_of base_url path))"
    and "sleeps_of (trace (snd (get_retrying base_url path max_retries backoff w)))
          = sleeps_of (trace w) @ map (\<lambda>attempt. backoff * of_int attempt) [1..max_retries]"
    by (simp_all add: get_retrying_def len)
next
  assume b: "reply (server v (nreq v) (GET url)) = Respond r200 \<and> status_code r200 = 200"
  then have t: "get_try url b attempt v = (Inr (Some r200), snd (http (GET url) v))"
    by (simp add: get_try_200)
  show "fst (get_loop url b (attempt # rest) last_exc v) = Inr r200"
    and "requests_of (trace (snd (get_loop url b (attempt # rest) last_exc v)))
          = requests_of (trace v) @ [GET url]"
    and "sleeps_of (trace (snd (get_loop url b (attempt # rest) last_exc v))) = sleeps_of (trace v)"
    by (simp_all add: t http_simps requests_of_append sleeps_of_append)
qed

theorem get_retries_exhausted_or_returns_200_witness:
  "fst (get_retrying (of_ascii ''https://courses.gdut.edu.cn'') (of_ascii ''/my/'') 3 (4 / 5) (always 503))
     = Inl RuntimeError
   \<and> requests_of (trace (snd (get_retrying (of_ascii ''https://courses.gdut.edu.cn'') (of_ascii ''/my/'') 3 (4 / 5) (always 503))))
     = replicate 3 (GET (of_ascii ''https://courses.gdut.edu.cn/my/''))
   \<and> sleeps_of (trace (snd (get_retrying (of_ascii ''https://courses.gdut.edu.cn'') (of_ascii ''/my/'') 3 (4 / 5) (always 503))))
     = [4 / 5, 8 / 5, 12 / 5]
   \<and> fst (get_loop (of_ascii ''/my/'') (4 / 5) [2, 3] None (always 200))
     = Inr \<lparr>status_code = 200, resp_text = []\<rparr>
   \<and> requests_of (trace (snd (get_loop (of_ascii ''/my/'') (4 / 5) [2, 3] None (always 200))))
     = [GET (of_ascii ''/my/'')]
   \<and> sleeps_of (trace (snd (get_loop (of_ascii ''/my/'') (4 / 5) [2, 3] None (always 200)))) = []"
  using get_retries_exhausted_or_returns_200
    [of "4 / 5" 3 "always 503" "of_ascii ''https://courses.gdut.edu.cn''" "of_ascii ''/my/''"
        "always 200" "of_ascii ''/my/''" "\<lparr>status_code = 200, resp_text = []\<rparr>" "4 / 5" 2 "[3]" None]
  by (simp add: always_def retryable_def url_of_def of_ascii_def upto.simps)

text \<open>
  Claim C2 fails on the code. The comment \<^verbatim>\<open># Non-retryable status\<close> stands above
  \<^verbatim>\<open>resp.raise_for_status()\<close>, but the call is inside the \<^verbatim>\<open>try\<close>, so the
  \<^verbatim>\<open>HTTPError\<close> it raises is caught by \<^verbatim>\<open>except Exception\<close>: a sustained 404 is
  requested three times, with the three back-off sleeps, before the error surfaces.
\<close>

theorem get_retries_non_retryable_status:
  "fst (get (of_ascii ''https://courses.gdut.edu.cn'') (of_ascii ''/my/'') (always 404)) = Inl (HTTPError 404)
   \<and> requests_of (trace (snd (get (of_ascii ''https://courses.gdut.edu.cn'') (of_ascii ''/my/'') (always 404))))
     = replicate 3 (GET (of_ascii ''https://courses.gdut.edu.cn/my/''))
   \<and> sleeps_of (trace (snd (get (of_ascii ''https://courses.gdut.edu.cn'') (of_ascii ''/my/'') (always 404))))
     = [4 / 5, 8 / 5, 12 / 5]"
  by code_simp

subsection \<open>What a match captures\<close>

text \<open>
  After the opening parenthesis, with no other one ahead, the match either leaves the
  group as it was, there being no closing parenthesis ahead, or captures a prefix of
  the input at the opening parenthesis that reaches at least to the current position.
\<close>

lemma rmatch_group:
  "rmatch k s opened grp = Some (rest, g) \<Longrightarrow> Open \<notin> set k \<Longrightarrow> opened = Some s0 \<Longrightarrow>
     (Close \<notin> set k \<and> g = grp)
     \<or> (g \<noteq> None \<and> take (length (the g)) s0 = the g \<and> length s0 - length s \<le> length (the g))"
proof (induction k s opened grp arbitrary: rest g rule: rmatch.induct)
  case (11 k s opened grp)
  from "11.prems" have r: "rmatch k s opened (Some (take (length s0 - length s) s0)) = Some (rest, g)"
    and o: "Open \<notin> set k"
    by simp_all
  from "11.IH"(2) [OF "11.prems"(3) r o "11.prems"(3)]
  have "(Close \<notin> set k \<and> g = Some (take (length s0 - length s) s0))
        \<or> (g \<noteq> None \<and> take (length (the g)) s0 = the g \<and> length s0 - length s \<le> length (the g))"
    by simp
  then show ?case by auto
qed (auto split: if_splits option.splits)

text \<open>Items before the opening parenthesis leave the group to what follows them.\<close>

lemma rmatch_prefix:
  "Open \<notin> set pre \<Longrightarrow> Close \<notin> set pre \<Longrightarrow> rmatch (pre @ k) s opened grp = Some m \<Longrightarrow>
     \<exists>s'. rmatch k s' opened grp = Some m"
proof (induction pre arbitrary: s)
  case Nil
  then show ?case by auto
next
  case (Cons i pre)
  show ?case
  proof (cases i)
    case (One c)
    with Cons show ?thesis by (cases s) (auto split: if_splits)
  next
    case (Maybe c)
    with Cons show ?thesis by (cases s) (auto split: if_splits option.splits)
  next
    case (Many c)
    have "rmatch (Many c # pre @ k) t opened grp = Some m \<Longrightarrow> \<exists>s'. rmatch k s' opened grp = Some m" for t
    proof (induction t)
      case Nil
      with Cons show ?case by auto
    next
      case (Cons x xs)
      with Cons.IH \<open>Open \<notin> set (i # pre)\<close> \<open>Close \<notin> set (i # pre)\<close>
        Cons.prems show ?case
        using \<open>\<And>s. \<lbrakk>Open \<notin> set pre; Close \<notin> set pre; rmatch (pre @ k) s opened grp = Some m\<rbrakk>
                 \<Longrightarrow> \<exists>s'. rmatch k s' opened grp = Some m\<close>
        by (auto split: if_splits option.splits)
    qed
    with Cons.prems Many show ?thesis by simp
  next
    case (Lazy c)
    have "rmatch (Lazy c # pre @ k) t opened grp = Some m \<Longrightarrow> \<exists>s'. rmatch k s' opened grp = Some m" for t
    proof (induction t)
      case Nil
      with Cons show ?case by auto
    next
      case (Cons x xs)
      with Cons.IH \<open>Open \<notin> set (i # pre)\<close> \<open>Close \<notin> set (i # pre)\<close>
        Cons.prems show ?case
        using \<open>\<And>s. \<lbrakk>Open \<notin> set pre; Close \<notin> set pre; rmatch (pre @ k) s opened grp = Some m\<rbrakk>
                 \<Longrightarrow> \<exists>s'. rmatch k s' opened grp = Some m\<close>
        by (auto split: if_splits option.splits)
    qed
    with Cons.prems Lazy show ?thesis by simp
  next
    case Open
    with Cons show ?thesis by simp
  next
    case Close
    with Cons show ?thesis by simp
  qed
qed


lemma search_Some: "search p s = Some g \<Longrightarrow> \<exists>s1 m. rmatch p s1 None None = Some m \<and> g = group1 m"
  by (induction s) (auto split: option.splits)

text \<open>
  The group of a pattern that opens it with a single character class begins with a
  character of that class.
\<close>

lemma search_group:
  assumes "Open \<notin> set pre" "Close \<notin> set pre" "Open \<notin> set k" "Close \<in> set k"
    and "search (pre @ Open # One c # k) s = Some g"
  shows "\<exists>x t. g = x # t \<and> cmatch c x"
proof -
  from search_Some [OF assms(5)] obtain s1 m where
    m: "rmatch (pre @ Open # One c # k) s1 None None = Some m" "g = group1 m"
    by blast
  from rmatch_prefix [OF assms(1,2) m(1)] obtain s2 where
    "rmatch (Open # One c # k) s2 None None = Some m"
    by blast
  then have o: "rmatch (One c # k) s2 (Some s2) None = Some m"
    by simp
  then obtain x xs where s2: "s2 = x # xs" "cmatch c x" "rmatch k xs (Some (x # xs)) None = Some m"
    by (cases s2) (auto split: if_splits)
  obtain rest gm where "m = (rest, gm)" by (cases m)
  with rmatch_group [of k xs "Some (x # xs)" None rest gm "x # xs"] s2(3) assms(3,4)
  have gm: "gm \<noteq> None" "take (length (the gm)) (x # xs) = the gm" "1 \<le> length (the gm)"
    by auto
  then obtain t where "the gm = x # t"
    by (cases "the gm") auto
  with gm(1) \<open>m = (rest, gm)\<close> m(2) have "g = x # t"
    by (auto simp add: group1_def)
  with s2(2) show ?thesis by blast
qed

lemma lit_plain: "Open \<notin> set (lit s)" "Close \<notin> set (lit s)"
  by (auto simp add: lit_def)

lemma object_raw:
  assumes "search pat_mcfg_assign page = Some raw \<or> search pat_cfg_field page = Some raw
           \<or> search pat_playerdata_assign page = Some raw \<or> search pat_playerdata_field page = Some raw"
  shows "\<exists>t. raw = 123 # t"
proof -
  have "\<exists>x t. raw = x # t \<and> cmatch (OneOf [Ch 123]) x"
    using assms
  proof (elim disjE)
    assume "search pat_mcfg_assign page = Some raw"
    then show ?thesis
      using search_group [of "lit ''M.cfg'' @ [Many ws, chr1 61, Many ws]"
                "[Lazy Any, chr1 125, Close, Many ws, chr1 59]" "OneOf [Ch 123]" page raw]
      by (simp add: pat_mcfg_assign_def object_group_def chr1_def lit_plain)
  next
    assume "search pat_cfg_field page = Some raw"
    then show ?thesis
      using search_group [of "lit ''cfg'' @ [Many ws, chr1 58, Many ws]"
                "[Lazy Any, chr1 125, Close]" "OneOf [Ch 123]" page raw]
      by (simp add: pat_cfg_field_def object_group_def chr1_def lit_plain)
  next
    assume "search pat_playerdata_assign page = Some raw"
    then show ?thesis
      using search_group [of "lit ''playerdata'' @ [Many ws, chr1 61, Many ws]"
                "[Lazy Any, chr1 125, Close, Many ws, chr1 59]" "OneOf [Ch 123]" page raw]
      by (simp add: pat_playerdata_assign_def object_group_def chr1_def lit_plain)
  next
    assume "search pat_playerdata_field page = Some raw"
    then show ?thesis
      using search_group [of "lit ''playerdata'' @ [Many ws, chr1 58, Many ws]"
                "[Lazy Any, chr1 125, Close]" "OneOf [Ch 123]" page raw]
      by (simp add: pat_playerdata_field_def object_group_def chr1_def lit_plain)
  qed
  then show ?thesis by auto
qed

lemma extract_sesskey_nonempty: "extract_sesskey page = Some token \<Longrightarrow> token \<noteq> []"
proof -
  assume a: "extract_sesskey page = Some token"
  then have "search pat_sesskey_input page = Some token \<or> search pat_sesskey_js page = Some token"
    unfolding extract_sesskey_def by (auto split: option.splits)
  then have "\<exists>x t. token = x # t \<and> cmatch alnum x"
  proof
    assume "search pat_sesskey_input page = Some token"
    then show ?thesis
      using search_group [of "lit ''name='' @ [One quote] @ lit ''sesskey'' @ [One quote, One ws, Many ws]
                                @ lit ''value='' @ [One quote]"
                "[Many alnum, Close, One quote]" alnum page token]
      by (simp add: pat_sesskey_input_def lit_plain)
  next
    assume "search pat_sesskey_js page = Some token"
    then show ?thesis
      using search_group [of "lit ''sesskey'' @ [Maybe quote, Many ws, One colon_or_eq, Many ws, One quote]"
                "[Many alnum, Close, One quote]" alnum page token]
      by (simp add: pat_sesskey_js_def lit_plain)
  qed
  then show ?thesis by auto
qed


subsection \<open>What the decoder makes of a text that begins with a brace\<close>

lemma last_push: "st \<noteq> [] \<Longrightarrow> last (f # st) = last st"
  by simp

lemma pvalue_pafter_object:
  "pvalue st ts = Some v \<Longrightarrow> st \<noteq> [] \<Longrightarrow> (\<exists>d k. last st = FObj d k) \<Longrightarrow> \<exists>kvs. v = JObj kvs"
  "pafter x st ts = Some v \<Longrightarrow> (st = [] \<longrightarrow> (\<exists>kvs. x = JObj kvs)) \<Longrightarrow>
     (st \<noteq> [] \<longrightarrow> (\<exists>d k. last st = FObj d k)) \<Longrightarrow> \<exists>kvs. v = JObj kvs"
proof (induction st ts and x st ts arbitrary: v and v rule: pvalue_pafter.induct)
  case (1 st)
  then show ?case by simp
next
  case (2 st t ts)
  show ?case
  proof (cases t)
    case (TVal x)
    with "2.prems" have "pafter x st ts = Some v" by simp
    from "2.IH"(11) [OF TVal this] "2.prems"(2,3) show ?thesis by simp
  next
    case TLBrack
    show ?thesis
    proof (cases ts)
      case Nil
      with TLBrack "2.prems" show ?thesis by simp
    next
      case (Cons t' ts')
      show ?thesis
      proof (cases "t' = TRBrack")
        case True
        with TLBrack Cons "2.prems" have "pafter (JArr []) st ts' = Some v" by simp
        from "2.IH"(7) [OF TLBrack Cons True this] "2.prems"(2,3) show ?thesis by simp
      next
        case False
        with TLBrack Cons "2.prems" have p: "pvalue (FArr [] # st) ts = Some v"
          by (cases t') simp_all
        have l: "\<exists>d k. last (FArr [] # st) = FObj d k" using "2.prems"(2,3) by simp
        from False show ?thesis
          using "2.IH"(4,5,6,8,9,10) [OF TLBrack Cons _ p _ l]
          by (cases t') simp_all
      qed
    qed
  next
    case TLBrace
    show ?thesis
    proof (cases ts)
      case Nil
      with TLBrace "2.prems" show ?thesis by simp
    next
      case (Cons t' ts')
      show ?thesis
      proof (cases "t' = TRBrace")
        case True
        with TLBrace Cons "2.prems" have "pafter (JObj []) st ts' = Some v" by simp
        from "2.IH"(1) [OF TLBrace Cons True this] "2.prems"(2,3) show ?thesis by simp
      next
        case False
        with TLBrace Cons "2.prems" obtain k ts'' where
          k: "t' = TVal (JStr k)" "ts' = TColon # ts''" "pvalue (FObj [] k # st) ts'' = Some v"
          by (auto split: tok.splits json.splits list.splits)
        have l: "\<exists>d k'. last (FObj [] k # st) = FObj d k'" using "2.prems"(2,3) by simp
        from "2.IH"(2) [OF TLBrace Cons k(1) refl k(2) refl k(3) _ l] show ?thesis by simp
      qed
    qed
  qed (use "2.prems" in simp_all)
next
  case (3 v ts)
  then show ?case by (auto split: if_splits)
next
  case (4 v f st)
  then show ?case by simp
next
  case (5 x f st t ts)
  show ?case
  proof (cases f)
    case (FArr xs)
    show ?thesis
    proof (cases "t = TRBrack")
      case True
      with FArr "5.prems" have p: "pafter (JArr (rev (x # xs))) st ts = Some v" by simp
      have "st \<noteq> []" using FArr "5.prems"(3) by auto
      moreover have "\<exists>d k. last st = FObj d k" using \<open>st \<noteq> []\<close> "5.prems"(3) by simp
      ultimately show ?thesis using "5.IH"(1) [OF FArr True p] by simp
    next
      case False
      with FArr "5.prems" have c: "t = TComma" and p: "pvalue (FArr (x # xs) # st) ts = Some v"
        by (auto split: tok.splits)
      have "st \<noteq> []" using FArr "5.prems"(3) by auto
      then have "\<exists>d k. last (FArr (x # xs) # st) = FObj d k" using "5.prems"(3) by simp
      with "5.IH"(2) [OF FArr c p] show ?thesis by simp
    qed
  next
    case (FObj d k)
    show ?thesis
    proof (cases "t = TRBrace")
      case True
      with FObj "5.prems" have p: "pafter (JObj (dict_set k x d)) st ts = Some v" by simp
      have "st \<noteq> [] \<longrightarrow> (\<exists>d k. last st = FObj d k)" using "5.prems"(3) by auto
      with "5.IH"(3) [OF FObj True p] show ?thesis by simp
    next
      case False
      with FObj "5.prems" obtain k' ts'' where
        c: "t = TComma" "ts = TVal (JStr k') # TColon # ts''"
           "pvalue (FObj (dict_set k x d) k' # st) ts'' = Some v"
        by (auto split: tok.splits json.splits list.splits)
      have "\<exists>d' k''. last (FObj (dict_set k x d) k' # st) = FObj d' k''" using FObj "5.prems"(3) by auto
      with "5.IH"(4) [OF FObj c(1) c(2) refl refl _ refl c(3)] show ?thesis by simp
    qed
  qed
qed

lemma json_loads_object:
  assumes "json_loads (123 # cs) = Inr v"
  shows "\<exists>kvs. v = JObj kvs"
proof -
  from assms obtain ts where ts: "tokenize cs = Some ts" and p: "pvalue [] (TLBrace # ts) = Some v"
    unfolding json_loads_def by (auto split: option.splits)
  show ?thesis
  proof (cases ts)
    case Nil
    with p show ?thesis by simp
  next
    case (Cons t ts')
    show ?thesis
    proof (cases "t = TRBrace")
      case True
      with p Cons have "pafter (JObj []) [] ts' = Some v" by simp
      then show ?thesis by (auto split: if_splits)
    next
      case False
      with p Cons obtain k ts'' where "pvalue [FObj [] k] ts'' = Some v"
        by (auto split: tok.splits list.splits json.splits)
      from pvalue_pafter_object(1) [OF this] show ?thesis by simp
    qed
  qed
qed

lemma drop_trailing_commas_brace: "drop_trailing_commas (123 # t) = 123 # drop_trailing_commas t"
  by (simp add: drop_trailing_commas_def pat_trailing_comma_def chr1_def)

lemma single_to_double_brace: "single_to_double (123 # t) = 123 # single_to_double t"
  by (simp add: single_to_double_def)

lemma parse_m_cfg_dict: "\<exists>kvs. parse_m_cfg page = Inr (JObj kvs)"
proof (cases "case search pat_mcfg_assign page of Some g \<Rightarrow> Some g | None \<Rightarrow> search pat_cfg_field page")
  case None
  then show ?thesis by (simp add: parse_m_cfg_def)
next
  case (Some raw)
  then have "search pat_mcfg_assign page = Some raw \<or> search pat_cfg_field page = Some raw"
    by (auto split: option.splits)
  then obtain t where t: "raw = 123 # t"
    using object_raw [of page raw] by blast
  have "parse_m_cfg page = Inr (JObj []) \<or>
        (\<exists>v cs. json_loads (123 # cs) = Inr v \<and> parse_m_cfg page = Inr v)"
    unfolding parse_m_cfg_def Some t
    by (auto simp add: drop_trailing_commas_brace single_to_double_brace split: sum.splits)
  then show ?thesis using json_loads_object by blast
qed

section \<open>Properties of the context extractor\<close>

lemma from_structured_page:
  "search pat_playerdata_assign structured_page = Some (of_ascii ''{\"fsresourceid\": 4821}'')"
  by code_simp

text \<open>
  Claim C5 fails on the code. The comments say \<^verbatim>\<open># Prefer playerdata object if present\<close>
  and, in the handler, \<^verbatim>\<open># Fall back to generic patterns below\<close>; but the loop over
  the patterns runs whatever the structured parsing gave, and a match overwrites the
  value. On a page whose playerdata object is valid JSON with the resource id 4821 and
  that has a link with \<^verbatim>\<open>cmid=7\<close>, the structured parsing gives 4821 and the method
  returns 7.
\<close>

theorem pattern_search_overrides_playerdata:
  "search pat_playerdata_assign structured_page = Some (of_ascii ''{\"fsresourceid\": 4821}'')
   \<and> from_playerdata (of_ascii ''{\"fsresourceid\": 4821}'')
         \<lparr>info_fsresourceid = JNull, info_duration = JNull, info_name = JNull, info_sesskey = JNull\<rparr>
       = Inr \<lparr>info_fsresourceid = JInt 4821, info_duration = JNull, info_name = JNull, info_sesskey = JNull\<rparr>
   \<and> extract_fsresource_info structured_page
       = Inr \<lparr>info_fsresourceid = JInt 7, info_duration = JNull, info_name = JNull, info_sesskey = JNull\<rparr>"
  by code_simp

lemma from_playerdata_fields:
  assumes "from_playerdata raw info = Inr info'"
  shows "(info_fsresourceid info' = info_fsresourceid info
            \<or> (\<exists>n. info_fsresourceid info' = JInt n) \<or> (\<exists>b. info_fsresourceid info' = JBool b))
         \<and> (info_sesskey info' = info_sesskey info \<or> (\<exists>s. info_sesskey info' = JStr s \<and> s \<noteq> []))
         \<and> info_duration info' = info_duration info \<and> info_name info' = info_name info"
proof -
  from assms obtain pdata fsid info1 sk where
    1: "dict_get pdata (of_ascii ''fsresourceid'') = Inr fsid"
    and 2: "(case fsid of
               JInt n \<Rightarrow> Inr (info\<lparr>info_fsresourceid := fsid\<rparr>)
             | JBool b \<Rightarrow> Inr (info\<lparr>info_fsresourceid := fsid\<rparr>)
             | JStr s \<Rightarrow>
                 if isdigit s
                 then (case int_of_str s of
                         Inl e \<Rightarrow> Inl e
                       | Inr n \<Rightarrow> Inr (info\<lparr>info_fsresourceid := JInt n\<rparr>))
                 else Inr info
             | _ \<Rightarrow> Inr info) = Inr info1"
    and 3: "dict_get pdata (of_ascii ''sesskey'') = Inr sk"
    and 4: "(case sk of
               JStr s \<Rightarrow> Inr (if s \<noteq> [] then info1\<lparr>info_sesskey := sk\<rparr> else info1)
             | _ \<Rightarrow> Inr info1) = (Inr info' :: exn + fsinfo)"
    unfolding from_playerdata_def by (auto split: sum.splits)
  from 2 have a: "(info_fsresourceid info1 = info_fsresourceid info
            \<or> (\<exists>n. info_fsresourceid info1 = JInt n) \<or> (\<exists>b. info_fsresourceid info1 = JBool b))
         \<and> info_sesskey info1 = info_sesskey info
         \<and> info_duration info1 = info_duration info \<and> info_name info1 = info_name info"
    by (cases fsid) (auto split: if_splits sum.splits)
  from 4 have b: "info_fsresourceid info' = info_fsresourceid info1
         \<and> (info_sesskey info' = info_sesskey info1 \<or> (\<exists>s. info_sesskey info' = JStr s \<and> s \<noteq> []))
         \<and> info_duration info' = info_duration info1 \<and> info_name info' = info_name info1"
    by (cases sk) (auto split: if_splits)
  from a b show ?thesis by auto
qed

text \<open>
  Claim C6. On every input the three operations return and raise nothing.
  \<^verbatim>\<open>parse_m_cfg\<close> returns a dict: the empty one, or what one of its two normalisations
  of the matched text decodes to. \<^verbatim>\<open>extract_fsresource_info\<close> returns its \<open>info\<close>,
  in which the resource id is an integer (or a boolean, which Python counts as one) or
  \<^verbatim>\<open>None\<close>, the duration an integer or \<^verbatim>\<open>None\<close>, the name a string or \<^verbatim>\<open>None\<close>
  and the token a non-empty string or \<^verbatim>\<open>None\<close>. \<^verbatim>\<open>extract_sesskey\<close>, which has no
  operation that could raise, returns a non-empty token or \<^verbatim>\<open>None\<close>.
\<close>

theorem extractors_never_raise:
  "(\<exists>kvs. parse_m_cfg page = Inr (JObj kvs))
   \<and> (parse_m_cfg page = Inr (JObj [])
      \<or> (\<exists>raw v. (json_loads (drop_trailing_commas raw) = Inr v
                   \<or> json_loads (drop_trailing_commas (single_to_double raw)) = Inr v)
                \<and> parse_m_cfg page = Inr v))
   \<and> (\<exists>info. extract_fsresource_info page = Inr info
         \<and> (info_fsresourceid info = JNull \<or> (\<exists>n. info_fsresourceid info = JInt n)
              \<or> (\<exists>b. info_fsresourceid info = JBool b))
         \<and> (info_duration info = JNull \<or> (\<exists>n. info_duration info = JInt n))
         \<and> (info_name info = JNull \<or> (\<exists>s. info_name info = JStr s))
         \<and> (info_sesskey info = JNull \<or> (\<exists>s. info_sesskey info = JStr s \<and> s \<noteq> [])))
   \<and> (extract_sesskey page = None \<or> (\<exists>token. extract_sesskey page = Some token \<and> token \<noteq> []))"
proof (intro conjI)
  show "\<exists>kvs. parse_m_cfg page = Inr (JObj kvs)"
    by (rule parse_m_cfg_dict)
  show "parse_m_cfg page = Inr (JObj [])
      \<or> (\<exists>raw v. (json_loads (drop_trailing_commas raw) = Inr v
                   \<or> json_loads (drop_trailing_commas (single_to_double raw)) = Inr v)
                \<and> parse_m_cfg page = Inr v)"
    unfolding parse_m_cfg_def by (auto split: option.splits sum.splits)
  show "extract_sesskey page = None \<or> (\<exists>token. extract_sesskey page = Some token \<and> token \<noteq> [])"
    using extract_sesskey_nonempty by (cases "extract_sesskey page") auto
  define info0 where "info0 = \<lparr>info_fsresourceid = JNull, info_duration = JNull, info_name = JNull, info_sesskey = JNull\<rparr>"
  define m where "m = (case search pat_playerdata_assign page of
                 Some g \<Rightarrow> Some g
               | None \<Rightarrow> search pat_playerdata_field page)"
  define info1 where "info1 = (case m of
                     None \<Rightarrow> info0
                   | Some raw \<Rightarrow>
                       (case from_playerdata raw info0 of
                          Inr i \<Rightarrow> i
                        | Inl e \<Rightarrow> info0))"
  define info2 where "info2 = (case first_int patterns page of
                     Some n \<Rightarrow> info1\<lparr>info_fsresourceid := JInt n\<rparr>
                   | None \<Rightarrow> info1)"
  define info3 where "info3 = (case first_int dur_patterns page of
                     Some n \<Rightarrow> info2\<lparr>info_duration := JInt n\<rparr>
                   | None \<Rightarrow> info2)"
  define info4 where "info4 = (case search pat_h2 page of
                     Some g \<Rightarrow> info3\<lparr>info_name := JStr (strip (collapse_spaces g))\<rparr>
                   | None \<Rightarrow> info3)"
  have r: "extract_fsresource_info page = Inr info4"
    unfolding extract_fsresource_info_def info4_def info3_def info2_def info1_def m_def info0_def
    by (simp add: Let_def)
  have 1: "(info_fsresourceid info1 = JNull \<or> (\<exists>n. info_fsresourceid info1 = JInt n)
              \<or> (\<exists>b. info_fsresourceid info1 = JBool b))
         \<and> (info_sesskey info1 = JNull \<or> (\<exists>s. info_sesskey info1 = JStr s \<and> s \<noteq> []))
         \<and> info_duration info1 = JNull \<and> info_name info1 = JNull"
  proof (cases m)
    case None
    then show ?thesis by (simp add: info1_def info0_def)
  next
    case (Some raw)
    show ?thesis
    proof (cases "from_playerdata raw info0")
      case (Inl e)
      with Some show ?thesis by (simp add: info1_def info0_def)
    next
      case (Inr i)
      from from_playerdata_fields [OF this] Some Inr show ?thesis
        by (simp add: info1_def) (simp add: info0_def)
    qed
  qed
  have 2: "(info_fsresourceid info2 = JNull \<or> (\<exists>n. info_fsresourceid info2 = JInt n)
              \<or> (\<exists>b. info_fsresourceid info2 = JBool b))
         \<and> (info_sesskey info2 = JNull \<or> (\<exists>s. info_sesskey info2 = JStr s \<and> s \<noteq> []))
         \<and> info_duration info2 = JNull \<and> info_name info2 = JNull"
    using 1 unfolding info2_def by (cases "first_int patterns page") simp_all
  have 3: "(info_fsresourceid info3 = JNull \<or> (\<exists>n. info_fsresourceid info3 = JInt n)
              \<or> (\<exists>b. info_fsresourceid info3 = JBool b))
         \<and> (info_sesskey info3 = JNull \<or> (\<exists>s. info_sesskey info3 = JStr s \<and> s \<noteq> []))
         \<and> (info_duration info3 = JNull \<or> (\<exists>n. info_duration info3 = JInt n)) \<and> info_name info3 = JNull"
    using 2 unfolding info3_def by (cases "first_int dur_patterns page") simp_all
  have 4: "(info_fsresourceid info4 = JNull \<or> (\<exists>n. info_fsresourceid info4 = JInt n)
              \<or> (\<exists>b. info_fsresourceid info4 = JBool b))
         \<and> (info_sesskey info4 = JNull \<or> (\<exists>s. info_sesskey info4 = JStr s \<and> s \<noteq> []))
         \<and> (info_duration info4 = JNull \<or> (\<exists>n. info_duration info4 = JInt n))
         \<and> (info_name info4 = JNull \<or> (\<exists>s. info_name info4 = JStr s))"
    using 3 unfolding info4_def by (cases "search pat_h2 page") simp_all
  from r 4 show "\<exists>info. extract_fsresource_info page = Inr info
         \<and> (info_fsresourceid info = JNull \<or> (\<exists>n. info_fsresourceid info = JInt n)
              \<or> (\<exists>b. info_fsresourceid info = JBool b))
         \<and> (info_duration info = JNull \<or> (\<exists>n. info_duration info = JInt n))
         \<and> (info_name info = JNull \<or> (\<exists>s. info_name info = JStr s))
         \<and> (info_sesskey info = JNull \<or> (\<exists>s. info_sesskey info = JStr s \<and> s \<noteq> []))"
    by blast
qed

theorem extractors_never_raise_witness:
  "parse_m_cfg timeout_page
     = Inr (JObj [(of_ascii ''sesskey'', JStr (of_ascii ''abc123'')),
                  (of_ascii ''sessiontimeout'', JStr (of_ascii ''61''))])
   \<and> parse_m_cfg (of_ascii ''M.cfg = {'sesskey':'abc123',};'')
     = Inr (JObj [(of_ascii ''sesskey'', JStr (of_ascii ''abc123''))])
   \<and> parse_m_cfg (of_ascii ''M.cfg = {sesskey:'abc123',};'') = Inr (JObj [])
   \<and> (\<exists>info. extract_fsresource_info (of_ascii ''playerdata = {fsresourceid: '4',,};'') = Inr info)
   \<and> extract_sesskey (of_ascii ''M.cfg = {sesskey:'abc123',};'') = Some (of_ascii ''abc123'')"
proof -
  have 1: "parse_m_cfg timeout_page
     = Inr (JObj [(of_ascii ''sesskey'', JStr (of_ascii ''abc123'')),
                  (of_ascii ''sessiontimeout'', JStr (of_ascii ''61''))])"
    by code_simp
  have 2: "parse_m_cfg (of_ascii ''M.cfg = {'sesskey':'abc123',};'')
     = Inr (JObj [(of_ascii ''sesskey'', JStr (of_ascii ''abc123''))])"
    by code_simp
  have 3: "parse_m_cfg (of_ascii ''M.cfg = {sesskey:'abc123',};'') = Inr (JObj [])"
    by code_simp
  have 4: "extract_sesskey (of_ascii ''M.cfg = {sesskey:'abc123',};'') = Some (of_ascii ''abc123'')"
    by code_simp
  from extractors_never_raise [of "of_ascii ''playerdata = {fsresourceid: '4',,};''"]
  have 5: "\<exists>info. extract_fsresource_info (of_ascii ''playerdata = {fsresourceid: '4',,};'') = Inr info"
    by blast
  from 1 2 3 4 5 show ?thesis by blast
qed

text \<open>
  Claim C7. On the page of the scenario, \<^verbatim>\<open>extract_fsresource_info\<close> gives the
  resource id 4821 and the duration 600, \<^verbatim>\<open>extract_sesskey\<close> gives the token
  \<^verbatim>\<open>abc123\<close>, and the resolving part of a run that fetched this page leaves for the loop
  the resource id 4821, the target duration 600 and the token \<^verbatim>\<open>abc123\<close>.
\<close>

theorem scenario_playerdata_context:
  "extract_fsresource_info playerdata_page
     = Inr \<lparr>info_fsresourceid = JInt 4821, info_duration = JInt 600, info_name = JNull, info_sesskey = JNull\<rparr>
   \<and> extract_sesskey playerdata_page = Some (of_ascii ''abc123'')
   \<and> fst (resolving rt base
            \<lparr>duration_seconds = 300, interval_seconds = 60, payload_template = None, target_seconds = None\<rparr>
            159716 (world_of (serving playerdata_page [])))
     = Inr (Some (\<lparr>duration_seconds = 300, interval_seconds = 60, payload_template = None,
                    target_seconds = Some 600\<rparr>,
                  \<lparr>html = playerdata_page, sesskey = JStr (of_ascii ''abc123''), sessiontimeout = None,
                   course_id = JNull, context_instance_id = JNull, fsresourceid = JInt 4821,
                   start = 0\<rparr>))"
  by code_simp

section \<open>Properties of the progress engine\<close>

text \<open>
  Claim C8. An iteration of the loop whose service call returns a reply that unwraps
  to a dict with the completion text under \<open>completion\<close> ends the run as completed:
  the world the run returns in is the one in which the reply arrived, so neither a
  sleep nor another request follows, however far away the deadline is.
\<close>

theorem completion_stops_run:
  assumes "now w < start cx + of_int (duration_seconds job)"
    and "template_of job = Some template"
    and "json_loads (fill_template rt template (trunc (now w * 1000)) cx video_id
                       (min (trunc (now w - start cx)) (duration_seconds job))) = Inr parsed"
    and "fill_fields rt job (trunc (now w - start cx))
           (str_of_int (trunc (now w * 1000)) @ of_ascii ''_'' @ dice w (ndraw w)) parsed = Inr payload"
    and "post_service base_url payload (html cx) (Some (trunc (now w * 1000)))
           (w\<lparr>ndraw := Suc (ndraw w)\<rparr>) = (Inr resp_json, w1)"
    and "unwrap resp_json = JObj kvs"
    and "map_of kvs (of_ascii ''completion'') = Some (JStr completed_text)"
  shows "looping (Suc n) rt base_url job video_id cx w = (Some (Inr Completed), w1)"
proof -
  have "reports_completion (unwrap resp_json)"
    using assms(6,7) by (simp add: reports_completion_def)
  then have "iteration rt base_url job video_id cx w = (Inr (Some Completed), w1)"
    using assms(2-5) by (simp add: iteration_def Let_def)
  then show ?thesis
    using assms(1) by simp
qed

theorem completion_stops_run_witness:
  "fst (looping (Suc 0) example_runtime base example_job 159716 timeout_context
          (world_of (serving timeout_page completion_body))) = Some (Inr Completed)
   \<and> sleeps_of (trace (snd (looping (Suc 0) example_runtime base example_job 159716 timeout_context
          (world_of (serving timeout_page completion_body))))) = []
   \<and> length (requests_of (trace (snd (looping (Suc 0) example_runtime base example_job 159716 timeout_context
          (world_of (serving timeout_page completion_body)))))) = 1"
proof -
  define w where "w = world_of (serving timeout_page completion_body)"
  define posted where "posted = post_service base example_payload (html timeout_context)
      (Some (trunc (now w * 1000))) (w\<lparr>ndraw := Suc (ndraw w)\<rparr>)"
  have 1: "now w < start timeout_context + of_int (duration_seconds example_job)"
    unfolding w_def by code_simp
  have 2: "template_of example_job = Some full_template"
    by code_simp
  have 3: "json_loads (fill_template example_runtime full_template
      (trunc (now w * 1000)) timeout_context 159716
      (min (trunc (now w - start timeout_context)) (duration_seconds example_job))) = Inr example_parsed"
    unfolding w_def by code_simp
  have 4: "fill_fields example_runtime example_job (trunc (now w - start timeout_context))
      (str_of_int (trunc (now w * 1000)) @ of_ascii ''_'' @ dice w (ndraw w)) example_parsed
      = Inr example_payload"
    unfolding w_def by code_simp
  have "fst posted = Inr completion_reply"
    unfolding posted_def w_def by code_simp
  then have 5: "post_service base example_payload (html timeout_context) (Some (trunc (now w * 1000)))
      (w\<lparr>ndraw := Suc (ndraw w)\<rparr>) = (Inr completion_reply, snd posted)"
    unfolding posted_def by (metis prod.collapse)
  have 6: "unwrap completion_reply
      = JObj [(of_ascii ''status'', JStr (of_ascii ''ok'')), (of_ascii ''completion'', JStr completed_text)]"
    by code_simp
  have 7: "map_of [(of_ascii ''status'', JStr (of_ascii ''ok'')), (of_ascii ''completion'', JStr completed_text)]
      (of_ascii ''completion'') = Some (JStr completed_text)"
    by code_simp
  have 8: "sleeps_of (trace (snd posted)) = []" "length (requests_of (trace (snd posted))) = 1"
    unfolding posted_def w_def by code_simp+
  from completion_stops_run [OF 1 2 3 4 5 6 7, of 0]
  show ?thesis
    unfolding w_def [symmetric] using 8 by simp
qed

subsection \<open>The times of the service calls\<close>

lemma post_times_append: "post_times (xs @ ys) = post_times xs @ post_times ys"
  by (induction xs rule: post_times.induct) simp_all

lemma spaced_Cons: "spaced d ps \<Longrightarrow> \<forall>p \<in> set ps. t + d \<le> p \<Longrightarrow> spaced d (t # ps)"
  by (cases ps) simp_all

text \<open>
  \<open>quiet w w'\<close>: the world \<open>w'\<close> comes after \<open>w\<close> and no service call was issued in
  between. \<open>posted w t w'\<close>: exactly one was, at time \<open>t\<close>.
\<close>

lemma http_later: "now w \<le> now (snd (http rq w))"
  by (simp add: http_simps)

lemma sleep_Inr:
  assumes "sleep d w = (Inr u, w')"
  shows "trace w' = trace w @ [(now w, Slept d)]" and "now w' = now w + d" and "0 \<le> d"
  using assms by (auto simp add: sleep_def split: if_splits)

lemma sleep_Inl: "sleep d w = (Inl e, w') \<Longrightarrow> w' = w"
  by (auto simp add: sleep_def split: if_splits)

lemma sleep_quiet:
  "\<exists>ev. trace (snd (sleep d w)) = trace w @ ev \<and> post_times ev = [] \<and> now w \<le> now (snd (sleep d w))"
  by (simp add: sleep_def)

lemma get_try_quiet:
  "\<exists>ev. trace (snd (get_try url b a w)) = trace w @ ev \<and> post_times ev = []
        \<and> now w \<le> now (snd (get_try url b a w))"
proof -
  obtain r w1 where h: "http (GET url) w = (r, w1)" by (cases "http (GET url) w")
  then have w1: "trace w1 = trace w @ [(now w, Sent (GET url))]" "now w \<le> now w1"
    using http_simps(4) [of "GET url" w] http_later [of w "GET url"] by simp_all
  obtain ev where ev: "trace (snd (sleep (b * of_int a) w1)) = trace w1 @ ev" "post_times ev = []"
      "now w1 \<le> now (snd (sleep (b * of_int a) w1))"
    using sleep_quiet by blast
  show ?thesis
  proof (cases "snd (get_try url b a w) = w1")
    case True
    then show ?thesis using w1 by simp
  next
    case False
    then have "snd (get_try url b a w) = snd (sleep (b * of_int a) w1)"
      unfolding get_try_def using h by (auto split: reply.splits sum.splits prod.splits if_splits)
    then show ?thesis using w1 ev by (simp add: post_times_append)
  qed
qed

lemma get_loop_quiet:
  "\<exists>ev. trace (snd (get_loop url b as last_exc w)) = trace w @ ev \<and> post_times ev = []
        \<and> now w \<le> now (snd (get_loop url b as last_exc w))"
proof (induction as arbitrary: w last_exc)
  case Nil
  then show ?case by (simp split: option.splits)
next
  case (Cons a as)
  obtain r w1 where t: "get_try url b a w = (r, w1)" by (cases "get_try url b a w")
  obtain ev1 where ev1: "trace w1 = trace w @ ev1" "post_times ev1 = []" "now w \<le> now w1"
    using get_try_quiet [of url b a w] t by auto
  obtain ev2 where ev2: "trace (snd (sleep (b * of_int a) w1)) = trace w1 @ ev2" "post_times ev2 = []"
      "now w1 \<le> now (snd (sleep (b * of_int a) w1))"
    using sleep_quiet by blast
  show ?case
  proof (cases r)
    case (Inr ro)
    show ?thesis
    proof (cases ro)
      case None
      obtain ev3 where "trace (snd (get_loop url b as last_exc w1)) = trace w1 @ ev3" "post_times ev3 = []"
        "now w1 \<le> now (snd (get_loop url b as last_exc w1))"
        using Cons.IH by blast
      then show ?thesis using t Inr None ev1 by (simp add: post_times_append)
    next
      case (Some resp)
      then show ?thesis using t Inr ev1 by simp
    qed
  next
    case (Inl e)
    obtain s w2 where s: "sleep (b * of_int a) w1 = (s, w2)" by (cases "sleep (b * of_int a) w1")
    show ?thesis
    proof (cases s)
      case (Inl e')
      then show ?thesis using t \<open>r = Inl e\<close> s ev1 ev2 by (simp add: post_times_append)
    next
      case (Inr u)
      obtain ev3 where "trace (snd (get_loop url b as (Some e) w2)) = trace w2 @ ev3" "post_times ev3 = []"
        "now w2 \<le> now (snd (get_loop url b as (Some e) w2))"
        using Cons.IH by blast
      then show ?thesis using t \<open>r = Inl e\<close> s Inr ev1 ev2 by (simp add: post_times_append)
    qed
  qed
qed

lemma get_quiet:
  "\<exists>ev. trace (snd (get base_url path w)) = trace w @ ev \<and> post_times ev = []
        \<and> now w \<le> now (snd (get base_url path w))"
  unfolding get_def get_retrying_def by (rule get_loop_quiet)

lemma service_sesskey_quiet:
  "\<exists>ev. trace (snd (service_sesskey base_url page w)) = trace w @ ev \<and> post_times ev = []
        \<and> now w \<le> now (snd (service_sesskey base_url page w))"
proof (cases "snd (service_sesskey base_url page w) = w")
  case True
  then show ?thesis by simp
next
  case False
  then have "snd (service_sesskey base_url page w) = snd (get base_url (of_ascii ''/my/'') w)"
    unfolding service_sesskey_def get_my_courses_page_def
    by (auto split: option.splits prod.splits sum.splits if_splits)
  then show ?thesis using get_quiet [of base_url "of_ascii ''/my/''" w] by simp
qed

lemma post_service_once:
  "\<exists>ev t. trace (snd (post_service base_url payload page ts w)) = trace w @ ev \<and> post_times ev = [t]
        \<and> now w \<le> t \<and> t \<le> now (snd (post_service base_url payload page ts w))"
proof -
  obtain sk w1 where k: "service_sesskey base_url page w = (sk, w1)"
    by (cases "service_sesskey base_url page w")
  obtain ev1 where ev1: "trace w1 = trace w @ ev1" "post_times ev1 = []" "now w \<le> now w1"
    using service_sesskey_quiet [of base_url page w] k by auto
  define rq where "rq = POST (service_url base_url) (case sk of Some s \<Rightarrow> s | None \<Rightarrow> [])
                          (case ts of Some t \<Rightarrow> t | None \<Rightarrow> trunc (now w1 * 1000)) payload"
  have "snd (post_service base_url payload page ts w) = snd (http rq w1)"
    unfolding post_service_def rq_def using k
    by (auto simp add: Let_def split: prod.splits reply.splits sum.splits)
  moreover have "trace (snd (http rq w1)) = trace w @ (ev1 @ [(now w1, Sent rq)])"
    using ev1 by (simp add: http_simps)
  moreover have "post_times (ev1 @ [(now w1, Sent rq)]) = [now w1]"
    using ev1 by (simp add: post_times_append rq_def)
  moreover have "now w1 \<le> now (snd (http rq w1))"
    by (rule http_later)
  ultimately show ?thesis using ev1(3) by metis
qed

lemma pause_cases:
  assumes "pause s w = (r, w')"
  shows "\<exists>ev. trace w' = trace w @ ev \<and> post_times ev = []
           \<and> (r = Inr None \<longrightarrow> now w' = now w + of_int s \<and> 0 \<le> s) \<and> (r \<noteq> Inr None \<longrightarrow> w' = w)"
  using assms unfolding pause_def sleep_def by (auto split: if_splits)

text \<open>
  One iteration issues at most one service call, not before the iteration began; if
  the loop goes on after it, the sleep has passed since.
\<close>

lemma iteration_posts:
  assumes "iteration rt base_url job video_id cx w = (r, w')"
  shows "\<exists>ev. trace w' = trace w @ ev \<and> now w \<le> now w'
           \<and> (post_times ev = []
               \<or> (\<exists>t. post_times ev = [t] \<and> now w \<le> t
                      \<and> (r = Inr None \<longrightarrow>
                           t + of_int (sleep_s (interval_seconds job) (sessiontimeout cx)) \<le> now w')))"
proof (cases "template_of job")
  case None
  then have "pause (interval_seconds job) w = (r, w')"
    using assms by (simp add: iteration_def Let_def)
  from pause_cases [OF this] show ?thesis by (cases "r = Inr None") auto
next
  case (Some template)
  define ts where "ts = trunc (now w * 1000)"
  define el where "el = trunc (now w - start cx)"
  show ?thesis
  proof (cases "json_loads (fill_template rt template ts cx video_id (min el (duration_seconds job)))")
    case (Inl e)
    then have "w' = w" using assms Some by (simp add: iteration_def Let_def ts_def el_def)
    then show ?thesis by simp
  next
    case (Inr parsed)
    show ?thesis
    proof (cases "fill_fields rt job el (str_of_int ts @ of_ascii ''_'' @ dice w (ndraw w)) parsed")
      case (Inl e)
      then have "w' = w" using assms Some \<open>json_loads _ = Inr parsed\<close>
        by (simp add: iteration_def Let_def ts_def el_def)
      then show ?thesis by simp
    next
      case fl: (Inr payload)
      define w0 where "w0 = w\<lparr>ndraw := Suc (ndraw w)\<rparr>"
      obtain a w1 where p: "post_service base_url payload (html cx) (Some ts) w0 = (a, w1)"
        by (cases "post_service base_url payload (html cx) (Some ts) w0")
      obtain ev t where ev: "trace w1 = trace w @ ev" "post_times ev = [t]" "now w \<le> t" "t \<le> now w1"
        using post_service_once [of base_url payload "html cx" "Some ts" w0] p
        by (auto simp add: w0_def)
      define d where "d = sleep_s (interval_seconds job) (sessiontimeout cx)"
      have it: "iteration rt base_url job video_id cx w =
                  (case a of
                     Inr resp_json \<Rightarrow>
                       if reports_completion (unwrap resp_json) then (Inr (Some Completed), w1)
                       else pause d w1
                   | Inl e \<Rightarrow> pause d w1)"
        unfolding d_def using Some \<open>json_loads _ = Inr parsed\<close> fl p
        by (simp add: iteration_def Let_def ts_def el_def w0_def)
      show ?thesis
      proof (cases "(r, w') = (Inr (Some Completed), w1)")
        case True
        then show ?thesis using ev by auto
      next
        case False
        then have "pause d w1 = (r, w')"
          using it assms by (auto split: sum.splits if_splits)
        from pause_cases [OF this] obtain ev2 where
          ev2: "trace w' = trace w1 @ ev2" "post_times ev2 = []"
               "r = Inr None \<longrightarrow> now w' = now w1 + of_int d \<and> 0 \<le> d" "r \<noteq> Inr None \<longrightarrow> w' = w1"
          by blast
        have "trace w' = trace w @ (ev @ ev2)" using ev(1) ev2(1) by simp
        moreover have "post_times (ev @ ev2) = [t]" using ev(2) ev2(2) by (simp add: post_times_append)
        moreover have "now w \<le> now w'" using ev(3,4) ev2(3,4) by (cases "r = Inr None") auto
        moreover have "r = Inr None \<longrightarrow> t + of_int d \<le> now w'" using ev(4) ev2(3) by auto
        ultimately show ?thesis using ev(3) unfolding d_def by blast
      qed
    qed
  qed
qed

lemma looping_spaced:
  "\<exists>ev. trace (snd (looping n rt base_url job video_id cx w)) = trace w @ ev
        \<and> (\<forall>t \<in> set (post_times ev). now w \<le> t)
        \<and> spaced (of_int (sleep_s (interval_seconds job) (sessiontimeout cx))) (post_times ev)"
proof (induction n arbitrary: w)
  case 0
  then show ?case by simp
next
  case (Suc n)
  define d :: rat where "d = of_int (sleep_s (interval_seconds job) (sessiontimeout cx))"
  show ?case
  proof (cases "now w < start cx + of_int (duration_seconds job)")
    case False
    then show ?thesis by simp
  next
    case True
    obtain r w1 where it: "iteration rt base_url job video_id cx w = (r, w1)"
      by (cases "iteration rt base_url job video_id cx w")
    from iteration_posts [OF it] obtain ev1 where
      ev1: "trace w1 = trace w @ ev1" "now w \<le> now w1"
           "post_times ev1 = [] \<or> (\<exists>t. post_times ev1 = [t] \<and> now w \<le> t \<and> (r = Inr None \<longrightarrow> t + d \<le> now w1))"
      unfolding d_def by blast
    show ?thesis
    proof (cases "r = Inr None")
      case False
      then have "snd (looping (Suc n) rt base_url job video_id cx w) = w1"
        using True it by (auto split: sum.splits option.splits)
      moreover have "\<forall>t \<in> set (post_times ev1). now w \<le> t" using ev1(3) by auto
      moreover have "spaced d (post_times ev1)" using ev1(3) by auto
      ultimately show ?thesis using ev1(1) unfolding d_def by auto
    next
      case cont: True
      then have l: "looping (Suc n) rt base_url job video_id cx w = looping n rt base_url job video_id cx w1"
        using True it by simp
      from Suc.IH [of w1] obtain ev2 where
        ev2: "trace (snd (looping n rt base_url job video_id cx w1)) = trace w1 @ ev2"
             "\<forall>t \<in> set (post_times ev2). now w1 \<le> t" "spaced d (post_times ev2)"
        unfolding d_def by blast
      have tr: "trace (snd (looping (Suc n) rt base_url job video_id cx w)) = trace w @ (ev1 @ ev2)"
        using l ev1(1) ev2(1) by simp
      have lower: "\<forall>t \<in> set (post_times (ev1 @ ev2)). now w \<le> t"
        using ev1(2,3) ev2(2) by (auto simp add: post_times_append)
      have "spaced d (post_times (ev1 @ ev2))"
      proof (cases "post_times ev1 = []")
        case True
        then show ?thesis using ev2(3) by (simp add: post_times_append)
      next
        case False
        then obtain t where t: "post_times ev1 = [t]" "t + d \<le> now w1"
          using ev1(3) cont by auto
        have "\<forall>p \<in> set (post_times ev2). t + d \<le> p"
          using ev2(2) t(2) by force
        with ev2(3) have "spaced d (t # post_times ev2)" by (rule spaced_Cons)
        then show ?thesis using t(1) by (simp add: post_times_append)
      qed
      with tr lower show ?thesis unfolding d_def by blast
    qed
  qed
qed

lemma sleep_s_bound: "min interval (st div 2) \<le> sleep_s interval (Some st)"
  by (auto simp add: sleep_s_def min_def max_def)


text \<open>
  Claim C4, as amended. In every run of the loop, from any world and however long it
  is followed, each service call is issued at least the per-iteration sleep after the
  one before. That sleep is \<open>max 30 (st div 2)\<close> when a timeout \<open>st\<close> other than 0 was
  resolved and the interval exceeds it, and the interval otherwise; with a resolved
  timeout it is never less than \<open>min interval (st div 2)\<close>. The division is the
  integer division of the source.
\<close>

theorem submissions_are_spaced:
  "spaced (of_int (sleep_s (interval_seconds job) (sessiontimeout cx)))
     (post_times (drop (length (trace w)) (trace (snd (looping n rt base_url job video_id cx w)))))
   \<and> (st \<noteq> 0 \<and> st < interval \<longrightarrow> sleep_s interval (Some st) = max 30 (st div 2))
   \<and> (st = 0 \<or> interval \<le> st \<longrightarrow> sleep_s interval (Some st) = interval)
   \<and> sleep_s interval None = interval
   \<and> min interval (st div 2) \<le> sleep_s interval (Some st)"
proof (intro conjI)
  from looping_spaced [of n rt base_url job video_id cx w] obtain ev where
    "trace (snd (looping n rt base_url job video_id cx w)) = trace w @ ev"
    "spaced (of_int (sleep_s (interval_seconds job) (sessiontimeout cx))) (post_times ev)"
    by blast
  then show "spaced (of_int (sleep_s (interval_seconds job) (sessiontimeout cx)))
     (post_times (drop (length (trace w)) (trace (snd (looping n rt base_url job video_id cx w)))))"
    by simp
  show "st \<noteq> 0 \<and> st < interval \<longrightarrow> sleep_s interval (Some st) = max 30 (st div 2)"
    by (simp add: sleep_s_def)
  show "st = 0 \<or> interval \<le> st \<longrightarrow> sleep_s interval (Some st) = interval"
    by (auto simp add: sleep_s_def)
  show "sleep_s interval None = interval"
    by (simp add: sleep_s_def)
  show "min interval (st div 2) \<le> sleep_s interval (Some st)"
    by (rule sleep_s_bound)
qed

theorem submissions_are_spaced_witness:
  "spaced 30 (post_times (trace (snd (looping 2 example_runtime base example_job 159716 timeout_context
                                        (world_of (serving timeout_page progress_body))))))
   \<and> post_times (trace (snd (looping 2 example_runtime base example_job 159716 timeout_context
                                        (world_of (serving timeout_page progress_body))))) = [0, 30]
   \<and> sleep_s 100 (Some 61) = 30
   \<and> sleep_s 100 (Some 0) = 100
   \<and> sleep_s 100 None = 100"
proof -
  have 1: "sleep_s (interval_seconds example_job) (sessiontimeout timeout_context) = 30"
    by code_simp
  have 2: "length (trace (world_of (serving timeout_page progress_body))) = 0"
    by (simp add: world_of_def)
  have 3: "post_times (trace (snd (looping 2 example_runtime base example_job 159716 timeout_context
                                        (world_of (serving timeout_page progress_body))))) = [0, 30]"
    by code_simp
  have 4: "max 30 (61 div 2) = (30::int)"
    by simp
  from submissions_are_spaced [of example_job timeout_context "world_of (serving timeout_page progress_body)"
         2 example_runtime base 159716 61 100]
       submissions_are_spaced [of example_job timeout_context "world_of (serving timeout_page progress_body)"
         2 example_runtime base 159716 0 100]
  show ?thesis
    using 1 2 3 4 by simp
qed

text \<open>
  Claim C4 as stated fails for an odd timeout. On the page that gives a session timeout
  of 61 s and with an interval of 100 s, the second submission follows the first after
  30 s, less than \<open>min (100, 61 / 2)\<close>, which is 30.5 s.
\<close>

theorem submissions_closer_than_half_timeout:
  "fst (resolving example_runtime base example_job 159716 (world_of (serving timeout_page progress_body)))
     = Inr (Some (example_job, timeout_context))
   \<and> post_times (trace (snd (run 2 example_runtime base example_job 159716
                                 (world_of (serving timeout_page progress_body))))) = [0, 30]
   \<and> (30::rat) - 0 < min (of_int (interval_seconds example_job)) (61 / 2)"
  by code_simp

section \<open>The request of an iteration\<close>

lemma pause_requests: "requests_of (trace (snd (pause s w))) = requests_of (trace w)"
  unfolding pause_def sleep_def by (simp add: requests_of_append)

text \<open>
  \<^verbatim>\<open>post_service\<close> sends one POST, after whatever the search for the token sent: it
  goes to the service URL and carries the token found (or the empty string), the
  timestamp and the payload it was given.
\<close>

lemma post_service_request:
  "requests_of (trace (snd (post_service base_url payload page (Some ts) w))) =
     requests_of (trace (snd (service_sesskey base_url page w)))
     @ [POST (service_url base_url)
          (case fst (service_sesskey base_url page w) of Some s \<Rightarrow> s | None \<Rightarrow> [])
          ts payload]"
proof -
  obtain sk w1 where k: "service_sesskey base_url page w = (sk, w1)"
    by (cases "service_sesskey base_url page w")
  define rq where "rq = POST (service_url base_url) (case sk of Some s \<Rightarrow> s | None \<Rightarrow> []) ts payload"
  obtain r w2 where h: "http rq w1 = (r, w2)" by (cases "http rq w1")
  then have t: "trace w2 = trace w1 @ [(now w1, Sent rq)]"
    using http_simps(4) [of rq w1] by simp
  have "snd (post_service base_url payload page (Some ts) w) = w2"
    unfolding post_service_def using k h
    by (simp add: rq_def [symmetric] Let_def split: reply.splits sum.splits)
  with t k show ?thesis
    by (simp add: requests_of_append rq_def)
qed



text \<open>
  An iteration whose filled template parses, and whose envelope the engine could fill,
  sends that envelope, and nothing after it.
\<close>

lemma iteration_request:
  assumes "template_of job = Some template"
    and "json_loads (fill_template rt template (trunc (now w * 1000)) cx video_id
                       (min (trunc (now w - start cx)) (duration_seconds job))) = Inr parsed"
    and "fill_fields rt job (trunc (now w - start cx))
           (str_of_int (trunc (now w * 1000)) @ of_ascii ''_'' @ dice w (ndraw w)) parsed = Inr payload"
  shows "requests_of (trace (snd (iteration rt base_url job video_id cx w))) =
           requests_of (trace (snd (service_sesskey base_url (html cx) (w\<lparr>ndraw := Suc (ndraw w)\<rparr>))))
           @ [POST (service_url base_url)
                (case fst (service_sesskey base_url (html cx) (w\<lparr>ndraw := Suc (ndraw w)\<rparr>)) of
                   Some s \<Rightarrow> s | None \<Rightarrow> [])
                (trunc (now w * 1000)) payload]"
    and "fst (iteration rt base_url job video_id cx w) \<noteq> Inr (Some TemplateError)"
proof -
  define w0 where "w0 = w\<lparr>ndraw := Suc (ndraw w)\<rparr>"
  obtain r w1 where p: "post_service base_url payload (html cx) (Some (trunc (now w * 1000))) w0 = (r, w1)"
    by (cases "post_service base_url payload (html cx) (Some (trunc (now w * 1000))) w0")
  have i: "iteration rt base_url job video_id cx w =
             (case r of
                Inr resp_json \<Rightarrow>
                  if reports_completion (unwrap resp_json) then (Inr (Some Completed), w1)
                  else pause (sleep_s (interval_seconds job) (sessiontimeout cx)) w1
              | Inl e \<Rightarrow> pause (sleep_s (interval_seconds job) (sessiontimeout cx)) w1)"
    unfolding iteration_def using assms p by (simp add: Let_def w0_def)
  have "requests_of (trace (snd (iteration rt base_url job video_id cx w))) = requests_of (trace w1)"
    unfolding i by (cases r) (simp_all add: pause_requests)
  also have "w1 = snd (post_service base_url payload (html cx) (Some (trunc (now w * 1000))) w0)"
    using p by simp
  finally show "requests_of (trace (snd (iteration rt base_url job video_id cx w))) =
           requests_of (trace (snd (service_sesskey base_url (html cx) (w\<lparr>ndraw := Suc (ndraw w)\<rparr>))))
           @ [POST (service_url base_url)
                (case fst (service_sesskey base_url (html cx) (w\<lparr>ndraw := Suc (ndraw w)\<rparr>)) of
                   Some s \<Rightarrow> s | None \<Rightarrow> [])
                (trunc (now w * 1000)) payload]"
    by (simp add: post_service_request w0_def)
  show "fst (iteration rt base_url job video_id cx w) \<noteq> Inr (Some TemplateError)"
    unfolding i pause_def by (cases r) (auto split: prod.splits sum.splits)
qed

subsection \<open>The fields that the engine fills\<close>

lemma dict_set_same: "map_of d k = Some v \<Longrightarrow> dict_set k v d = d"
  by (induction d) (auto split: if_splits)

lemma map_of_dict_set: "map_of (dict_set k v d) k' = (if k' = k then Some v else map_of d k')"
  by (induction d) auto

lemma keys_dict_set: "map_of d k \<noteq> None \<Longrightarrow> map fst (dict_set k v d) = map fst d"
  by (induction d) (auto split: if_splits)

lemma dict_set_twice: "dict_set k v (dict_set k u d) = dict_set k v d"
  by (induction d) auto

text \<open>One field of the dict of arguments, overwritten if the dict has it.\<close>

lemma overwrite_no_args: "args_dict payload = None \<Longrightarrow> overwrite payload key v = payload"
  unfolding overwrite_def declares_def assign_arg_def args_dict_def
  by (auto split: json.splits list.splits option.splits sum.splits bool.splits)

lemma overwrite_args:
  assumes "args_dict payload = Some a"
  shows "overwrite payload key v =
           (if map_of a key \<noteq> None then with_args payload (dict_set key v a) else payload)"
proof -
  from assms obtain kvs rest where p: "payload = JArr (JObj kvs # rest)"
    and a: "map_of kvs (of_ascii ''args'') = Some (JObj a)"
    unfolding args_dict_def by (auto split: json.splits list.splits option.splits)
  show ?thesis
    unfolding overwrite_def declares_def assign_arg_def with_args_def item0_def args_of_def contains_def
    using a by (auto simp add: p)
qed

lemma declares_args:
  "args_dict payload = Some a \<Longrightarrow> declares payload key = Inr (map_of a key \<noteq> None)"
  unfolding declares_def item0_def args_of_def contains_def args_dict_def
  by (auto split: json.splits list.splits option.splits)

lemma args_dict_with_args:
  "args_dict payload = Some a \<Longrightarrow> args_dict (with_args payload a') = Some a'"
  unfolding args_dict_def with_args_def
  by (auto simp add: map_of_dict_set split: json.splits list.splits option.splits)

lemma with_args_with_args: "with_args (with_args payload a) a' = with_args payload a'"
  unfolding with_args_def
  by (auto simp add: dict_set_twice split: json.splits list.splits)

lemma with_args_same: "args_dict payload = Some a \<Longrightarrow> with_args payload a = payload"
  unfolding args_dict_def with_args_def
  by (auto simp add: dict_set_same split: json.splits list.splits option.splits)

text \<open>
  An overwrite keeps an envelope an envelope: its dict of arguments has the same keys
  in the same order, the given value under the key if the dict has it, and the same
  values under every other key.
\<close>

lemma overwrite_exact:
  assumes "args_dict payload = Some a"
  shows "\<exists>a'. overwrite payload key v = with_args payload a' \<and> map fst a' = map fst a
            \<and> (\<forall>k. map_of a' k = (if k = key \<and> map_of a k \<noteq> None then Some v else map_of a k))"
proof (cases "map_of a key \<noteq> None")
  case True
  then have "overwrite payload key v = with_args payload (dict_set key v a)"
    using assms by (simp add: overwrite_args)
  moreover have "map fst (dict_set key v a) = map fst a"
    using True by (rule keys_dict_set)
  moreover have "\<forall>k. map_of (dict_set key v a) k = (if k = key \<and> map_of a k \<noteq> None then Some v else map_of a k)"
    using True by (simp add: map_of_dict_set)
  ultimately show ?thesis by blast
next
  case False
  then have "overwrite payload key v = with_args payload a"
    using assms by (simp add: overwrite_args with_args_same)
  with False show ?thesis by auto
qed

lemma overwrite_undeclared: "declares payload key \<noteq> Inr True \<Longrightarrow> overwrite payload key v = payload"
  unfolding overwrite_def by (auto split: sum.splits bool.splits)

lemma field_names:
  "of_ascii ''progress'' \<noteq> of_ascii ''finish''"
  "of_ascii ''progress'' \<noteq> of_ascii ''unique''"
  "of_ascii ''finish'' \<noteq> of_ascii ''unique''"
  by (simp_all add: of_ascii_def)

text \<open>
  The division by the target raises for a target too large for a float, and for no
  other; the engine fills nothing before it.
\<close>

lemma fill_fields_returns:
  "(\<exists>filled. fill_fields rt job elapsed uniq payload = Inr filled)
     \<longleftrightarrow> \<not> (\<exists>t. target_seconds job = Some t \<and> t \<noteq> 0 \<and> float_overflows t)"
  unfolding fill_fields_def fill_progress_def
  by (auto split: option.splits sum.splits)

text \<open>
  The value that the engine gives to the field \<open>k\<close> of the dict of arguments whose
  templated value is \<open>v\<close>.
\<close>

lemma fill_fields_exact:
  assumes "fill_fields rt job elapsed uniq payload = Inr filled" and "args_dict payload = Some a"
  shows "\<exists>a'. filled = with_args payload a' \<and> map fst a' = map fst a
            \<and> (\<forall>k. map_of a' k =
                  (case map_of a k of
                     None \<Rightarrow> None
                   | Some v \<Rightarrow>
                       Some (if k = of_ascii ''unique'' then JStr uniq
                             else (case target_seconds job of
                                     None \<Rightarrow> v
                                   | Some t \<Rightarrow>
                                       if t = 0 then v
                                       else if k = of_ascii ''progress''
                                         then JStr (progress_2f rt elapsed t)
                                       else if k = of_ascii ''finish''
                                         then JInt (if progress_done rt elapsed t then 1 else 0)
                                       else v))))"
proof -
  obtain p1 where p1: "fill_progress rt job elapsed payload = Inr p1"
    and f: "filled = overwrite p1 (of_ascii ''unique'') (JStr uniq)"
    using assms(1) unfolding fill_fields_def by (auto split: sum.splits)
  have "\<exists>a1. p1 = with_args payload a1 \<and> map fst a1 = map fst a
            \<and> (\<forall>k. map_of a1 k =
                  (case map_of a k of
                     None \<Rightarrow> None
                   | Some v \<Rightarrow>
                       Some (case target_seconds job of
                               None \<Rightarrow> v
                             | Some t \<Rightarrow>
                                 if t = 0 then v
                                 else if k = of_ascii ''progress''
                                   then JStr (progress_2f rt elapsed t)
                                 else if k = of_ascii ''finish''
                                   then JInt (if progress_done rt elapsed t then 1 else 0)
                                 else v)))"
  proof (cases "\<exists>t. target_seconds job = Some t \<and> t \<noteq> 0")
    case False
    then have "p1 = payload"
      using p1 unfolding fill_progress_def by (auto split: option.splits if_splits)
    then have "p1 = with_args payload a"
      using assms(2) by (simp add: with_args_same)
    moreover have "\<forall>k. map_of a k =
                  (case map_of a k of
                     None \<Rightarrow> None
                   | Some v \<Rightarrow>
                       Some (case target_seconds job of
                               None \<Rightarrow> v
                             | Some t \<Rightarrow>
                                 if t = 0 then v
                                 else if k = of_ascii ''progress''
                                   then JStr (progress_2f rt elapsed t)
                                 else if k = of_ascii ''finish''
                                   then JInt (if progress_done rt elapsed t then 1 else 0)
                                 else v))"
      using False by (auto split: option.splits)
    ultimately show ?thesis by blast
  next
    case True
    then obtain t where t: "target_seconds job = Some t" "t \<noteq> 0" by blast
    define s where "s = JStr (progress_2f rt elapsed t)"
    define v where "v = JInt (if progress_done rt elapsed t then 1 else 0)"
    have p1': "p1 = overwrite (overwrite payload (of_ascii ''progress'') s) (of_ascii ''finish'') v"
      using p1 t unfolding fill_progress_def s_def v_def by (auto split: if_splits)
    from overwrite_exact [OF assms(2)] obtain b where
      b: "overwrite payload (of_ascii ''progress'') s = with_args payload b"
         "map fst b = map fst a"
         "\<forall>k. map_of b k = (if k = of_ascii ''progress'' \<and> map_of a k \<noteq> None then Some s else map_of a k)"
      by blast
    have "args_dict (with_args payload b) = Some b"
      using assms(2) by (rule args_dict_with_args)
    from overwrite_exact [OF this] obtain c where
      c: "overwrite (with_args payload b) (of_ascii ''finish'') v = with_args (with_args payload b) c"
         "map fst c = map fst b"
         "\<forall>k. map_of c k = (if k = of_ascii ''finish'' \<and> map_of b k \<noteq> None then Some v else map_of b k)"
      by blast
    have "p1 = with_args payload c"
      using p1' b(1) c(1) by (simp add: with_args_with_args)
    moreover have "map fst c = map fst a" using b(2) c(2) by simp
    moreover have "\<forall>k. map_of c k =
                  (case map_of a k of
                     None \<Rightarrow> None
                   | Some v \<Rightarrow>
                       Some (case target_seconds job of
                               None \<Rightarrow> v
                             | Some t \<Rightarrow>
                                 if t = 0 then v
                                 else if k = of_ascii ''progress''
                                   then JStr (progress_2f rt elapsed t)
                                 else if k = of_ascii ''finish''
                                   then JInt (if progress_done rt elapsed t then 1 else 0)
                                 else v))"
      using b(3) c(3) t field_names by (auto simp add: s_def v_def split: option.splits)
    ultimately show ?thesis by blast
  qed
  then obtain a1 where a1: "p1 = with_args payload a1" "map fst a1 = map fst a"
      "\<forall>k. map_of a1 k =
                  (case map_of a k of
                     None \<Rightarrow> None
                   | Some v \<Rightarrow>
                       Some (case target_seconds job of
                               None \<Rightarrow> v
                             | Some t \<Rightarrow>
                                 if t = 0 then v
                                 else if k = of_ascii ''progress''
                                   then JStr (progress_2f rt elapsed t)
                                 else if k = of_ascii ''finish''
                                   then JInt (if progress_done rt elapsed t then 1 else 0)
                                 else v))"
    by blast
  have "args_dict p1 = Some a1"
    unfolding a1(1) using assms(2) by (rule args_dict_with_args)
  from overwrite_exact [OF this] obtain a2 where
    a2: "overwrite p1 (of_ascii ''unique'') (JStr uniq) = with_args p1 a2"
        "map fst a2 = map fst a1"
        "\<forall>k. map_of a2 k = (if k = of_ascii ''unique'' \<and> map_of a1 k \<noteq> None then Some (JStr uniq)
                             else map_of a1 k)"
    by blast
  have "filled = with_args payload a2"
    using f a2(1) a1(1) by (simp add: with_args_with_args)
  moreover have "map fst a2 = map fst a" using a1(2) a2(2) by simp
  moreover have "\<forall>k. map_of a2 k =
                  (case map_of a k of
                     None \<Rightarrow> None
                   | Some v \<Rightarrow>
                       Some (if k = of_ascii ''unique'' then JStr uniq
                             else (case target_seconds job of
                                     None \<Rightarrow> v
                                   | Some t \<Rightarrow>
                                       if t = 0 then v
                                       else if k = of_ascii ''progress''
                                         then JStr (progress_2f rt elapsed t)
                                       else if k = of_ascii ''finish''
                                         then JInt (if progress_done rt elapsed t then 1 else 0)
                                       else v)))"
    using a1(3) a2(3) by (auto split: option.splits)
  ultimately show ?thesis by blast
qed

lemma fill_fields_no_args:
  assumes "fill_fields rt job elapsed uniq payload = Inr filled" and "args_dict payload = None"
  shows "filled = payload"
  using assms unfolding fill_fields_def fill_progress_def
  by (auto simp add: overwrite_no_args split: sum.splits option.splits if_splits)

lemma fill_fields_undeclared:
  assumes "fill_fields rt job elapsed uniq payload = Inr filled"
    and "\<forall>k \<in> set engine_fields. declares payload k \<noteq> Inr True"
  shows "filled = payload"
  using assms unfolding fill_fields_def fill_progress_def engine_fields_def
  by (auto simp add: overwrite_undeclared split: sum.splits option.splits if_splits)

text \<open>
  Claim C9, as amended. The engine fills the parsed envelope unless the target duration
  is too large for a float, in which case the division raises before any field is
  touched. An envelope without a dict of arguments is as it was. Otherwise only
  that dict differs: it has the same fields in the same order (none added, none
  removed); a field \<open>unique\<close> that the template declares has the value drawn in this
  iteration; fields \<open>progress\<close> and \<open>finish\<close> that the template declares have the
  formatted fraction and the completion flag when a target duration other than zero is
  known, and their templated values when none is; every other field has its templated
  value. Each of the three is filled whether or not the template declares the other
  two. An envelope that declares none of the three is as it was. The envelope so
  filled is the payload of the one request that the iteration sends; when the division
  raises, the iteration sends none and the exception leaves the run.
\<close>

theorem engine_fills_only_declared_fields:
  "((\<exists>filled. fill_fields rt job elapsed uniq payload = Inr filled)
      \<longleftrightarrow> \<not> (\<exists>t. target_seconds job = Some t \<and> t \<noteq> 0 \<and> float_overflows t))
   \<and> (fill_fields rt job elapsed uniq payload = Inr filled \<longrightarrow>
         (case args_dict payload of
            None \<Rightarrow> filled = payload
          | Some a \<Rightarrow>
              (\<forall>k. declares payload k = Inr (map_of a k \<noteq> None))
              \<and> (\<exists>a'. filled = with_args payload a' \<and> map fst a' = map fst a
                    \<and> (\<forall>k. map_of a' k =
                             (case map_of a k of
                                None \<Rightarrow> None
                              | Some v \<Rightarrow>
                                  Some (if k = of_ascii ''unique'' then JStr uniq
                                        else (case target_seconds job of
                                                None \<Rightarrow> v
                                              | Some t \<Rightarrow>
                                                  if t = 0 then v
                                                  else if k = of_ascii ''progress''
                                                    then JStr (progress_2f rt elapsed t)
                                                  else if k = of_ascii ''finish''
                                                    then JInt (if progress_done rt elapsed t then 1 else 0)
                                                  else v))))
                    \<and> (\<forall>k. k \<notin> set engine_fields \<longrightarrow> map_of a' k = map_of a k)))
         \<and> ((\<forall>k \<in> set engine_fields. declares payload k \<noteq> Inr True) \<longrightarrow> filled = payload))
   \<and> (template_of job = Some template
       \<and> json_loads (fill_template rt template (trunc (now w * 1000)) cx video_id
                        (min (trunc (now w - start cx)) (duration_seconds job))) = Inr parsed
       \<and> fill_fields rt job (trunc (now w - start cx))
            (str_of_int (trunc (now w * 1000)) @ of_ascii ''_'' @ dice w (ndraw w)) parsed = Inr sent
       \<longrightarrow> requests_of (trace (snd (iteration rt base_url job video_id cx w))) =
            requests_of (trace (snd (service_sesskey base_url (html cx) (w\<lparr>ndraw := Suc (ndraw w)\<rparr>))))
            @ [POST (service_url base_url)
                 (case fst (service_sesskey base_url (html cx) (w\<lparr>ndraw := Suc (ndraw w)\<rparr>)) of
                    Some s \<Rightarrow> s | None \<Rightarrow> [])
                 (trunc (now w * 1000)) sent])
   \<and> (template_of job = Some template
       \<and> json_loads (fill_template rt template (trunc (now w * 1000)) cx video_id
                        (min (trunc (now w - start cx)) (duration_seconds job))) = Inr parsed
       \<and> fill_fields rt job (trunc (now w - start cx))
            (str_of_int (trunc (now w * 1000)) @ of_ascii ''_'' @ dice w (ndraw w)) parsed = Inl e
       \<longrightarrow> iteration rt base_url job video_id cx w = (Inl e, w))"
proof (intro conjI impI)
  show "(\<exists>filled. fill_fields rt job elapsed uniq payload = Inr filled)
      \<longleftrightarrow> \<not> (\<exists>t. target_seconds job = Some t \<and> t \<noteq> 0 \<and> float_overflows t)"
    by (rule fill_fields_returns)
next
  assume f: "fill_fields rt job elapsed uniq payload = Inr filled"
  show "(case args_dict payload of
            None \<Rightarrow> filled = payload
          | Some a \<Rightarrow>
              (\<forall>k. declares payload k = Inr (map_of a k \<noteq> None))
              \<and> (\<exists>a'. filled = with_args payload a' \<and> map fst a' = map fst a
                    \<and> (\<forall>k. map_of a' k =
                             (case map_of a k of
                                None \<Rightarrow> None
                              | Some v \<Rightarrow>
                                  Some (if k = of_ascii ''unique'' then JStr uniq
                                        else (case target_seconds job of
                                                None \<Rightarrow> v
                                              | Some t \<Rightarrow>
                                                  if t = 0 then v
                                                  else if k = of_ascii ''progress''
                                                    then JStr (progress_2f rt elapsed t)
                                                  else if k = of_ascii ''finish''
                                                    then JInt (if progress_done rt elapsed t then 1 else 0)
                                                  else v))))
                    \<and> (\<forall>k. k \<notin> set engine_fields \<longrightarrow> map_of a' k = map_of a k)))"
  proof (cases "args_dict payload")
    case None
    with fill_fields_no_args [OF f] show ?thesis by simp
  next
    case (Some a)
    from fill_fields_exact [OF f Some] obtain a' where
      a': "filled = with_args payload a'" "map fst a' = map fst a"
          "\<forall>k. map_of a' k =
                             (case map_of a k of
                                None \<Rightarrow> None
                              | Some v \<Rightarrow>
                                  Some (if k = of_ascii ''unique'' then JStr uniq
                                        else (case target_seconds job of
                                                None \<Rightarrow> v
                                              | Some t \<Rightarrow>
                                                  if t = 0 then v
                                                  else if k = of_ascii ''progress''
                                                    then JStr (progress_2f rt elapsed t)
                                                  else if k = of_ascii ''finish''
                                                    then JInt (if progress_done rt elapsed t then 1 else 0)
                                                  else v)))"
      by blast
    have "\<forall>k. k \<notin> set engine_fields \<longrightarrow> map_of a' k = map_of a k"
      using a'(3) by (auto simp add: engine_fields_def split: option.splits)
    with a' have "\<exists>a'. filled = with_args payload a' \<and> map fst a' = map fst a
                    \<and> (\<forall>k. map_of a' k =
                             (case map_of a k of
                                None \<Rightarrow> None
                              | Some v \<Rightarrow>
                                  Some (if k = of_ascii ''unique'' then JStr uniq
                                        else (case target_seconds job of
                                                None \<Rightarrow> v
                                              | Some t \<Rightarrow>
                                                  if t = 0 then v
                                                  else if k = of_ascii ''progress''
                                                    then JStr (progress_2f rt elapsed t)
                                                  else if k = of_ascii ''finish''
                                                    then JInt (if progress_done rt elapsed t then 1 else 0)
                                                  else v))))
                    \<and> (\<forall>k. k \<notin> set engine_fields \<longrightarrow> map_of a' k = map_of a k)"
      by blast
    with Some declares_args [OF Some] show ?thesis by simp
  qed
  show "filled = payload" if "\<forall>k \<in> set engine_fields. declares payload k \<noteq> Inr True"
    using f that by (rule fill_fields_undeclared)
next
  assume "template_of job = Some template
       \<and> json_loads (fill_template rt template (trunc (now w * 1000)) cx video_id
                        (min (trunc (now w - start cx)) (duration_seconds job))) = Inr parsed
       \<and> fill_fields rt job (trunc (now w - start cx))
            (str_of_int (trunc (now w * 1000)) @ of_ascii ''_'' @ dice w (ndraw w)) parsed = Inr sent"
  then show "requests_of (trace (snd (iteration rt base_url job video_id cx w))) =
            requests_of (trace (snd (service_sesskey base_url (html cx) (w\<lparr>ndraw := Suc (ndraw w)\<rparr>))))
            @ [POST (service_url base_url)
                 (case fst (service_sesskey base_url (html cx) (w\<lparr>ndraw := Suc (ndraw w)\<rparr>)) of
                    Some s \<Rightarrow> s | None \<Rightarrow> [])
                 (trunc (now w * 1000)) sent]"
    using iteration_request(1) by blast
next
  assume "template_of job = Some template
       \<and> json_loads (fill_template rt template (trunc (now w * 1000)) cx video_id
                        (min (trunc (now w - start cx)) (duration_seconds job))) = Inr parsed
       \<and> fill_fields rt job (trunc (now w - start cx))
            (str_of_int (trunc (now w * 1000)) @ of_ascii ''_'' @ dice w (ndraw w)) parsed = Inl e"
  then show "iteration rt base_url job video_id cx w = (Inl e, w)"
    unfolding iteration_def by (simp add: Let_def)
qed

theorem engine_fills_only_declared_fields_witness:
  "fill_fields example_runtime example_job 0 (of_ascii ''0_0.5'') example_parsed = Inr example_payload
   \<and> map_option (map fst) (args_dict example_payload) = map_option (map fst) (args_dict example_parsed)
   \<and> map_option (\<lambda>a. map_of a (of_ascii ''unique'')) (args_dict example_payload)
       = Some (Some (JStr (of_ascii ''0_0.5'')))
   \<and> fill_fields example_runtime example_job 0 (of_ascii ''0_0.5'')
         (envelope [(of_ascii ''time'', JInt 0), (of_ascii ''unique'', JStr [])])
       = Inr (envelope [(of_ascii ''time'', JInt 0), (of_ascii ''unique'', JStr (of_ascii ''0_0.5''))])
   \<and> fill_fields example_runtime (example_job\<lparr>target_seconds := None\<rparr>) 0 (of_ascii ''0_0.5'') example_parsed
       = Inr (envelope [(of_ascii ''fsresourceid'', JInt 159716), (of_ascii ''time'', JInt 0),
                        (of_ascii ''progress'', JStr (of_ascii ''0'')), (of_ascii ''finish'', JInt 0),
                        (of_ascii ''unique'', JStr (of_ascii ''0_0.5''))])
   \<and> fill_fields example_runtime example_job 0 (of_ascii ''0_0.5'') (JObj []) = Inr (JObj [])
   \<and> requests_of (trace (snd (iteration example_runtime base example_job 159716 timeout_context
                                 (world_of (serving timeout_page progress_body)))))
       = [POST (service_url base) (of_ascii ''abc123'') 0 example_payload]"
proof -
  have 1: "fill_fields example_runtime example_job 0 (of_ascii ''0_0.5'') example_parsed = Inr example_payload"
    by code_simp
  have 2: "fill_fields example_runtime example_job 0 (of_ascii ''0_0.5'') (JObj []) = Inr (JObj [])"
    by code_simp
  have 3: "fill_fields example_runtime example_job 0 (of_ascii ''0_0.5'')
         (envelope [(of_ascii ''time'', JInt 0), (of_ascii ''unique'', JStr [])])
       = Inr (envelope [(of_ascii ''time'', JInt 0), (of_ascii ''unique'', JStr (of_ascii ''0_0.5''))])"
    by code_simp
  have 4: "fill_fields example_runtime (example_job\<lparr>target_seconds := None\<rparr>) 0 (of_ascii ''0_0.5'') example_parsed
       = Inr (envelope [(of_ascii ''fsresourceid'', JInt 159716), (of_ascii ''time'', JInt 0),
                        (of_ascii ''progress'', JStr (of_ascii ''0'')), (of_ascii ''finish'', JInt 0),
                        (of_ascii ''unique'', JStr (of_ascii ''0_0.5''))])"
    by code_simp
  define a where "a = [(of_ascii ''fsresourceid'', JInt 159716), (of_ascii ''time'', JInt 0),
               (of_ascii ''progress'', JStr (of_ascii ''0'')), (of_ascii ''finish'', JInt 0),
               (of_ascii ''unique'', JStr [])]"
  have a: "args_dict example_parsed = Some a"
    unfolding a_def by code_simp
  have u: "map_of a (of_ascii ''unique'') = Some (JStr [])"
    unfolding a_def by code_simp
  note engine_fills_only_declared_fields
         [of example_runtime example_job 0 "of_ascii ''0_0.5''" example_parsed example_payload,
          THEN conjunct2, THEN conjunct1, rule_format, OF 1, THEN conjunct1]
  then have "\<exists>a'. example_payload = with_args example_parsed a' \<and> map fst a' = map fst a
          \<and> (\<forall>k. map_of a' k =
                (case map_of a k of
                   None \<Rightarrow> None
                 | Some v \<Rightarrow>
                     Some (if k = of_ascii ''unique'' then JStr (of_ascii ''0_0.5'')
                           else (case target_seconds example_job of
                                   None \<Rightarrow> v
                                 | Some t \<Rightarrow>
                                     if t = 0 then v
                                     else if k = of_ascii ''progress''
                                       then JStr (progress_2f example_runtime 0 t)
                                     else if k = of_ascii ''finish''
                                       then JInt (if progress_done example_runtime 0 t then 1 else 0)
                                     else v))))"
    unfolding a by simp blast
  then obtain a' where a': "example_payload = with_args example_parsed a'" "map fst a' = map fst a"
    "map_of a' (of_ascii ''unique'') = Some (JStr (of_ascii ''0_0.5''))"
    using u by auto
  then have 5: "map_option (map fst) (args_dict example_payload) = map_option (map fst) (args_dict example_parsed)"
    "map_option (\<lambda>a. map_of a (of_ascii ''unique'')) (args_dict example_payload)
       = Some (Some (JStr (of_ascii ''0_0.5'')))"
    using a args_dict_with_args [OF a, of a'] by simp_all
  define w where "w = world_of (serving timeout_page progress_body)"
  have h: "template_of example_job = Some full_template"
    "json_loads (fill_template example_runtime full_template (trunc (now w * 1000)) timeout_context 159716
                        (min (trunc (now w - start timeout_context)) (duration_seconds example_job)))
       = Inr example_parsed"
    "fill_fields example_runtime example_job (trunc (now w - start timeout_context))
            (str_of_int (trunc (now w * 1000)) @ of_ascii ''_'' @ dice w (ndraw w)) example_parsed
       = Inr example_payload"
    unfolding w_def by code_simp+
  have k: "requests_of (trace (snd (service_sesskey base (html timeout_context) (w\<lparr>ndraw := Suc (ndraw w)\<rparr>))))
            @ [POST (service_url base)
                 (case fst (service_sesskey base (html timeout_context) (w\<lparr>ndraw := Suc (ndraw w)\<rparr>)) of
                    Some s \<Rightarrow> s | None \<Rightarrow> [])
                 (trunc (now w * 1000)) example_payload]
           = [POST (service_url base) (of_ascii ''abc123'') 0 example_payload]"
    unfolding w_def by code_simp
  from engine_fills_only_declared_fields
         [where rt = example_runtime and job = example_job and template = full_template and w = w
            and cx = timeout_context and video_id = 159716 and parsed = example_parsed
            and sent = example_payload and base_url = base]
  have 6: "requests_of (trace (snd (iteration example_runtime base example_job 159716 timeout_context w)))
       = [POST (service_url base) (of_ascii ''abc123'') 0 example_payload]"
    using h k by simp
  from 1 2 3 4 5 6 show ?thesis
    unfolding w_def by simp
qed

text \<open>
  Claim C9 as stated fails where it says that a template with no declared progress
  argument leaves the envelope unchanged: the template that declares only \<open>finish\<close>
  parses to an envelope without \<open>progress\<close>, and the engine overwrites its \<open>finish\<close>.
\<close>

theorem finish_overwritten_without_progress:
  "json_loads (fill_template example_runtime finish_template 0 timeout_context 159716 0) = Inr finish_parsed
   \<and> declares finish_parsed (of_ascii ''progress'') = Inr False
   \<and> fill_fields example_runtime example_job 0 (of_ascii ''0_0.5'') finish_parsed = Inr finish_payload
   \<and> finish_payload \<noteq> finish_parsed"
  by code_simp

subsection \<open>Unresolved identifiers\<close>





section \<open>Properties of the batch\<close>






end
